theory Spec2Isabelle
  imports Complex_Main "HOL-Library.Log_Nat"
begin

section \<open>Data model of the JKL shuttle engine\<close>

text \<open>
  The engine is the class \<open>GameEngine\<close> of the canvas component, with the types of the
  types module and the constants of the constants module. A TypeScript \<open>number\<close> is
  modelled as a real, without NaN or infinity. Tape positions, widths and marks are
  whole numbers of pixels in play, on which double arithmetic is exact, and their
  arithmetic is written exactly. The score is computed from clock readings, which are
  fractions of a millisecond; there every operation is followed by the rounding \<open>fl\<close>
  of its result to the nearest double. \<open>Math.floor\<close> is the floor and \<open>Math.round\<close>
  rounds to the nearest integer with ties going up, that is \<open>\<lfloor>v + 1/2\<rfloor>\<close>. A colour is the string the code compares with
  \<open>===\<close>. The identifier of a segment or clip is a template string built from a number;
  it is kept as that number. Callbacks are results: every operation returns the list of
  callback invocations it made, in order, next to the new state. The clock
  (\<open>performance.now()\<close>, \<open>Date.now()\<close>) and the draws of \<open>Math.random()\<close> are
  arguments. The audio graph and the drawing context are platform handles that no
  decision reads; they are left out, and so are the random velocities of a particle.
\<close>

type_synonym color = string

datatype ident = SegId nat | ClipId int

record TimelineSegment =
  seg_id :: ident
  seg_x :: real
  seg_width :: real
  seg_color :: color

record SequenceClip =
  clip_id :: ident
  clip_width :: real
  clip_color :: color

datatype GameMode = STANDARD | CAT_MODE

datatype Mood = Idle | Happy | Worried | Dizzy | Focused

datatype ParticleType = Star | Heart | Spark

record Particle =
  p_x :: real
  p_y :: real
  p_life :: real
  p_color :: color
  p_type :: ParticleType

datatype event =
    ScoreUpdate real
  | PenaltyUpdate nat
  | FinalScoreUpdate int
  | GameOver
  | Win

record GameEngine =
  width :: real
  height :: real
  sourceSegments :: "TimelineSegment list"
  sequenceClips :: "SequenceClip list"
  particles :: "Particle list"
  gameMode :: GameMode
  conveyorOffset :: real
  markIn :: "real option"
  markOut :: "real option"
  currentSpeed :: real
  lastTime :: real
  startTime :: real
  isHoldingK :: bool
  isHoldingJ :: bool
  isHoldingL :: bool
  inputTimestamps :: "string \<rightharpoonup> real"
  inputStartOffsets :: "string \<rightharpoonup> real"
  targetColor :: color
  penaltyCount :: nat
  characterMood :: Mood
  characterMoodTimer :: real

subsection \<open>Constants\<close>

definition FRAME_PIXELS :: real where "FRAME_PIXELS = 6"

definition SEGMENT_MIN_WIDTH :: real where "SEGMENT_MIN_WIDTH = 100"
definition SEGMENT_MAX_WIDTH :: real where "SEGMENT_MAX_WIDTH = 300"
definition MAX_SPEED :: real where "MAX_SPEED = 32"
definition WIN_PIXELS :: real where "WIN_PIXELS = 1200"
definition SOURCE_TRACK_Y :: real where "SOURCE_TRACK_Y = 220"
definition SEQUENCE_TRACK_Y :: real where "SEQUENCE_TRACK_Y = 480"
definition TRACK_HEIGHT :: real where "TRACK_HEIGHT = 80"

definition RED :: color where "RED = ''#ef4444''"
definition BLUE :: color where "BLUE = ''#3b82f6''"
definition GREEN :: color where "GREEN = ''#22c55e''"
definition YELLOW :: color where "YELLOW = ''#eab308''"
definition PURPLE :: color where "PURPLE = ''#a855f7''"
definition ORANGE :: color where "ORANGE = ''#f97316''"

definition AVAILABLE_COLORS :: "color list" where
  "AVAILABLE_COLORS = [RED, BLUE, GREEN, YELLOW, PURPLE, ORANGE]"

definition KEY_J :: string where "KEY_J = ''j''"
definition KEY_K :: string where "KEY_K = ''k''"
definition KEY_L :: string where "KEY_L = ''l''"
definition KEY_I :: string where "KEY_I = ''i''"
definition KEY_O :: string where "KEY_O = ''o''"
definition KEY_PERIOD :: string where "KEY_PERIOD = ''.''"

named_theorems key_defs
named_theorems color_defs

lemmas [key_defs] = KEY_J_def KEY_K_def KEY_L_def KEY_I_def KEY_O_def KEY_PERIOD_def
lemmas [color_defs] = RED_def BLUE_def GREEN_def YELLOW_def PURPLE_def ORANGE_def

subsection \<open>A new engine\<close>

text \<open>The field initialisers of the class and its constructor, which stores the
  canvas size.\<close>

definition newGameEngine :: "real \<Rightarrow> real \<Rightarrow> GameEngine" where
  "newGameEngine w h =
     \<lparr>width = w, height = h, sourceSegments = [], sequenceClips = [], particles = [],
      gameMode = STANDARD, conveyorOffset = 0, markIn = None, markOut = None,
      currentSpeed = 0, lastTime = 0, startTime = 0, isHoldingK = False,
      isHoldingJ = False, isHoldingL = False, inputTimestamps = Map.empty,
      inputStartOffsets = Map.empty, targetColor = RED, penaltyCount = 0,
      characterMood = Idle, characterMoodTimer = 0\<rparr>"

subsection \<open>Physics and grid\<close>

definition math_round :: "real \<Rightarrow> int" where
  "math_round v = \<lfloor>v + 1 / 2\<rfloor>"

text \<open>The expression \<open>Math.round(t / FRAME_PIXELS) * FRAME_PIXELS\<close>, which the source
  writes out at each of its uses.\<close>

definition frameGrid :: "real \<Rightarrow> real" where
  "frameGrid t = of_int (math_round (t / FRAME_PIXELS)) * FRAME_PIXELS"

definition getTapeXAtPlayhead :: "GameEngine \<Rightarrow> real" where
  "getTapeXAtPlayhead st = width st / 2 - conveyorOffset st"

definition snapToFrame :: "GameEngine \<Rightarrow> GameEngine" where
  "snapToFrame st =
     (let currentTapeX = getTapeXAtPlayhead st;
          snappedTapeX = frameGrid currentTapeX
      in st\<lparr>conveyorOffset := width st / 2 - snappedTapeX\<rparr>)"

subsection \<open>Cosmetic state: mood and particles\<close>

definition setCharacterMood :: "Mood \<Rightarrow> real \<Rightarrow> GameEngine \<Rightarrow> GameEngine" where
  "setCharacterMood mood duration st =
     (let st = st\<lparr>characterMood := mood\<rparr>
      in if duration > 0 then st\<lparr>characterMoodTimer := duration\<rparr> else st)"

text \<open>The loop of \<open>createParticles\<close> pushes \<open>count\<close> particles at the same place,
  each with life 1.\<close>

definition createParticles ::
  "real \<Rightarrow> real \<Rightarrow> nat \<Rightarrow> color \<Rightarrow> ParticleType \<Rightarrow> GameEngine \<Rightarrow> GameEngine" where
  "createParticles px py count col ty st =
     st\<lparr>particles := particles st @
        replicate count \<lparr>p_x = px, p_y = py, p_life = 1, p_color = col, p_type = ty\<rparr>\<rparr>"

subsection \<open>Double-precision rounding\<close>

text \<open>
  IEEE 754 binary64, round to nearest with ties to even: \<open>binExponent v\<close> is the
  integer \<open>e\<close> with \<open>2^e \<le> |v| < 2^(e+1)\<close>, a double has 53 significant bits, so the
  spacing of the doubles around \<open>v\<close> is \<open>2^(e - 52)\<close> (that of the subnormal numbers
  below \<open>2^(-1022)\<close>), and \<open>fl v\<close> is the multiple of the spacing nearest to \<open>v\<close>.
  Overflow to infinity, above \<open>2^1024\<close>, is not modelled.
\<close>

definition pow2 :: "int \<Rightarrow> real" where
  "pow2 k = (if 0 \<le> k then 2 ^ nat k else 1 / 2 ^ nat (- k))"

definition binExponent :: "real \<Rightarrow> int" where
  "binExponent v =
     (if 1 \<le> \<bar>v\<bar> then bitlen \<lfloor>\<bar>v\<bar>\<rfloor> - 1 else - bitlen (\<lceil>1 / \<bar>v\<bar>\<rceil> - 1))"

definition roundHalfEven :: "real \<Rightarrow> int" where
  "roundHalfEven v =
     (let f = \<lfloor>v\<rfloor>; d = v - of_int f
      in if d < 1 / 2 then f else if d > 1 / 2 then f + 1
         else if even f then f else f + 1)"

definition fl :: "real \<Rightarrow> real" where
  "fl v =
     (if v = 0 then 0
      else (let e = max (binExponent v) (- 1022); u = pow2 (e - 52)
            in of_int (roundHalfEven (v / u)) * u))"

named_theorems fl_eval

lemmas [fl_eval] = fl_def binExponent_def compute_bitlen pow2_def roundHalfEven_def Let_def

subsection \<open>Scoring\<close>

definition registerBadHabit :: "GameEngine \<Rightarrow> event list \<times> GameEngine" where
  "registerBadHabit st =
     (let st = st\<lparr>penaltyCount := penaltyCount st + 1\<rparr>;
          ev = [PenaltyUpdate (penaltyCount st)];
          st = setCharacterMood Worried 200 st;
          st = createParticles (width st / 2) SOURCE_TRACK_Y 3 ''#ef4444'' Star st
      in (ev, st))"

text \<open>\<open>calculateFinalScore\<close>, one rounding for each of its six arithmetic operations.\<close>

definition calculateFinalScore :: "real \<Rightarrow> GameEngine \<Rightarrow> int" where
  "calculateFinalScore now st =
     (let timeElapsed = fl (fl (now - startTime st) / 1000);
          penalties = real (penaltyCount st);
          score = fl (fl (10000 - fl (timeElapsed * 10)) - fl (penalties * 50))
      in max 0 \<lfloor>score\<rfloor>)"

subsection \<open>Extraction\<close>

text \<open>The segments a marked range touches: the filter at the head of
  \<open>performExtract\<close>.\<close>

definition affectedSegments ::
  "TimelineSegment list \<Rightarrow> real \<Rightarrow> real \<Rightarrow> TimelineSegment list" where
  "affectedSegments segs start end =
     filter (\<lambda>s. seg_x s < end \<and> seg_x s + seg_width s > start) segs"

text \<open>The \<open>CAT_MODE\<close> branch of \<open>performExtract\<close>, giving the value of its variable
  \<open>success\<close>. \<open>Array.find\<close> returns the first element that satisfies the test, or
  undefined.\<close>

definition catSuccess :: "color \<Rightarrow> TimelineSegment list \<Rightarrow> real \<Rightarrow> real \<Rightarrow> bool" where
  "catSuccess target affected start end =
     (let ALLOWED_SILENCE_FRAMES = 10;
          ALLOWED_SILENCE_PX = ALLOWED_SILENCE_FRAMES * FRAME_PIXELS
      in case find (\<lambda>s. seg_color s = target) affected of
           None \<Rightarrow> False
         | Some targetMeow \<Rightarrow>
             (let caughtStart = (start \<le> seg_x targetMeow + 1 / 10);
                  caughtEnd = (end \<ge> seg_x targetMeow + seg_width targetMeow - 1 / 10)
              in if caughtStart \<and> caughtEnd then
                   (let silenceBefore = max 0 (seg_x targetMeow - start);
                        silenceAfter = max 0 (end - (seg_x targetMeow + seg_width targetMeow))
                    in if silenceBefore > ALLOWED_SILENCE_PX \<or> silenceAfter > ALLOWED_SILENCE_PX
                       then False else True)
                 else False))"

text \<open>The \<open>STANDARD\<close> branch: the \<open>forEach\<close> that accumulates
  \<open>correctColorLength\<close>, then the accuracy test.\<close>

definition correctColorLength ::
  "color \<Rightarrow> TimelineSegment list \<Rightarrow> real \<Rightarrow> real \<Rightarrow> real" where
  "correctColorLength target affected start end =
     foldl (\<lambda>acc seg.
        (let segStart = max start (seg_x seg);
             segEnd = min end (seg_x seg + seg_width seg);
             len = segEnd - segStart
         in if seg_color seg = target then acc + len else acc)) 0 affected"

definition standardSuccess :: "color \<Rightarrow> TimelineSegment list \<Rightarrow> real \<Rightarrow> real \<Rightarrow> bool" where
  "standardSuccess target affected start end =
     (let duration = end - start;
          accuracy = correctColorLength target affected start end / duration
      in accuracy \<ge> 95 / 100)"

text \<open>The ripple delete: two \<open>forEach\<close> passes over the old tape, each pushing onto
  \<open>newSegments\<close>.\<close>

definition rippleDelete ::
  "TimelineSegment list \<Rightarrow> real \<Rightarrow> real \<Rightarrow> TimelineSegment list" where
  "rippleDelete segs start end =
     (let duration = end - start;
          newSegments = [];
          newSegments = foldl (\<lambda>acc seg.
             if seg_x seg + seg_width seg \<le> start then acc @ [seg]
             else if seg_x seg < start then acc @ [seg\<lparr>seg_width := start - seg_x seg\<rparr>]
             else acc) newSegments segs;
          newSegments = foldl (\<lambda>acc seg.
             if seg_x seg \<ge> end then acc @ [seg\<lparr>seg_x := seg_x seg - duration\<rparr>]
             else if seg_x seg + seg_width seg > end then
               (let newLen = (seg_x seg + seg_width seg) - end
                in acc @ [seg\<lparr>seg_x := end - duration, seg_width := newLen\<rparr>])
             else acc) newSegments segs
      in newSegments)"

text \<open>\<open>performExtract\<close>. The argument \<open>now\<close> is the reading of \<open>performance.now()\<close>
  inside \<open>calculateFinalScore\<close>, \<open>dnow\<close> that of \<open>Date.now()\<close> in the clip identifier.\<close>

definition performExtract :: "real \<Rightarrow> int \<Rightarrow> GameEngine \<Rightarrow> event list \<times> GameEngine" where
  "performExtract now dnow st =
     (case markIn st of None \<Rightarrow> ([], st) | Some start \<Rightarrow>
      case markOut st of None \<Rightarrow> ([], st) | Some end \<Rightarrow>
       (let duration = end - start in
        if duration \<le> 0 then ([], st) else
        (let affected = affectedSegments (sourceSegments st) start end in
         if length affected = 0 then ([], st) else
         (let success =
                (if gameMode st = CAT_MODE then catSuccess (targetColor st) affected start end
                 else standardSuccess (targetColor st) affected start end)
          in
          if \<not> success then ([GameOver], setCharacterMood Worried 120 st) else
          (let st = setCharacterMood Happy 60 st;
               particleColor = (if gameMode st = CAT_MODE then ''#f472b6'' else targetColor st);
               st = createParticles (width st / 2) SEQUENCE_TRACK_Y 20 particleColor Heart st;
               st = st\<lparr>sequenceClips := sequenceClips st @
                      [\<lparr>clip_id = ClipId dnow, clip_width = duration,
                        clip_color = targetColor st\<rparr>]\<rparr>;
               totalPixels = foldl (\<lambda>acc clip. acc + clip_width clip) 0 (sequenceClips st)
           in
           if totalPixels \<ge> WIN_PIXELS then
             ([ScoreUpdate totalPixels, FinalScoreUpdate (calculateFinalScore now st), Win], st)
           else
             ([ScoreUpdate totalPixels],
              snapToFrame (st\<lparr>sourceSegments := rippleDelete (sourceSegments st) start end,
                               conveyorOffset := width st / 2 - start,
                               markIn := None,
                               markOut := None,
                               currentSpeed := 0\<rparr>)))))))"

subsection \<open>Input handling\<close>

definition handleKeyDown ::
  "real \<Rightarrow> int \<Rightarrow> string \<Rightarrow> GameEngine \<Rightarrow> event list \<times> GameEngine" where
  "handleKeyDown now dnow key st =
     (if key = KEY_K then
        (if \<not> isHoldingK st then
           ([], snapToFrame (st\<lparr>isHoldingK := True, currentSpeed := 0\<rparr>))
         else ([], st))
      else if key = KEY_L then
        (if \<not> isHoldingL st then
           (let st = st\<lparr>isHoldingL := True,
                         inputTimestamps := (inputTimestamps st)(KEY_L \<mapsto> now),
                         inputStartOffsets := (inputStartOffsets st)(KEY_L \<mapsto> conveyorOffset st)\<rparr>
            in if isHoldingK st then ([], st\<lparr>currentSpeed := 1 / 5\<rparr>)
               else if currentSpeed st < 0 then ([], st\<lparr>currentSpeed := 0\<rparr>)
               else if currentSpeed st = 0 then ([], st\<lparr>currentSpeed := 1\<rparr>)
               else ([], st\<lparr>currentSpeed := min (currentSpeed st * 2) MAX_SPEED\<rparr>))
         else ([], st))
      else if key = KEY_J then
        (if \<not> isHoldingJ st then
           (let st = st\<lparr>isHoldingJ := True,
                         inputTimestamps := (inputTimestamps st)(KEY_J \<mapsto> now),
                         inputStartOffsets := (inputStartOffsets st)(KEY_J \<mapsto> conveyorOffset st)\<rparr>
            in if isHoldingK st then ([], st\<lparr>currentSpeed := - (1 / 5)\<rparr>)
               else if currentSpeed st > 0 then ([], st\<lparr>currentSpeed := 0\<rparr>)
               else if currentSpeed st = 0 then ([], st\<lparr>currentSpeed := - 1\<rparr>)
               else ([], st\<lparr>currentSpeed := max (currentSpeed st * 2) (- MAX_SPEED)\<rparr>))
         else ([], st))
      else if key = KEY_I then
        (let tapeX = getTapeXAtPlayhead st;
             st = st\<lparr>markIn := Some (frameGrid tapeX)\<rparr>;
             st = (case (markOut st, markIn st) of
                     (Some mo, Some mi) \<Rightarrow> if mo < mi then st\<lparr>markOut := None\<rparr> else st
                   | _ \<Rightarrow> st)
         in ([], createParticles (width st / 2) (SOURCE_TRACK_Y + TRACK_HEIGHT / 2) 5
                   ''#fbbf24'' Spark st))
      else if key = KEY_O then
        (let tapeX = getTapeXAtPlayhead st;
             snappedX = frameGrid tapeX
         in if (case markIn st of None \<Rightarrow> True | Some mi \<Rightarrow> snappedX > mi) then
              ([], createParticles (width st / 2) (SOURCE_TRACK_Y + TRACK_HEIGHT / 2) 5
                     ''#fbbf24'' Spark (st\<lparr>markOut := Some snappedX\<rparr>))
            else ([], st))
      else if key = KEY_PERIOD then performExtract now dnow st
      else ([], st))"

text \<open>
  In \<open>handleKeyUp\<close> the two bookkeeping records are read at the released key. A key
  never pressed has no entry: the read is undefined, the subtraction gives NaN, and
  \<open>NaN < 200\<close> is false, so the branch taken is the snap. The two records are only
  written together (by \<open>handleKeyDown\<close>) and never deleted from, so an entry of the
  timestamps without one of the start offsets does not arise; the model takes the snap
  branch there too. The branches for L and for J are the same code but for the key and
  the sign of the one-frame step; \<open>releaseShuttle\<close> is that code, with the key and the
  signed step as arguments.
\<close>

definition releaseShuttle :: "real \<Rightarrow> string \<Rightarrow> real \<Rightarrow> GameEngine \<Rightarrow> event list \<times> GameEngine" where
  "releaseShuttle now key step st =
     (if isHoldingK st then
        (let st = st\<lparr>currentSpeed := 0\<rparr>
         in case (inputTimestamps st key, inputStartOffsets st key) of
              (Some pressed, Some startOffset) \<Rightarrow>
                if now - pressed < 200 then
                  (let startTapeX = width st / 2 - startOffset;
                       gridTapeX = frameGrid startTapeX;
                       targetTapeX = gridTapeX + step
                   in registerBadHabit (st\<lparr>conveyorOffset := width st / 2 - targetTapeX\<rparr>))
                else ([], snapToFrame st)
            | _ \<Rightarrow> ([], snapToFrame st))
      else ([], st))"

definition handleKeyUp :: "real \<Rightarrow> string \<Rightarrow> GameEngine \<Rightarrow> event list \<times> GameEngine" where
  "handleKeyUp now key st =
     (if key = KEY_K then ([], st\<lparr>isHoldingK := False\<rparr>)
      else if key = KEY_L then
        releaseShuttle now KEY_L FRAME_PIXELS (st\<lparr>isHoldingL := False\<rparr>)
      else if key = KEY_J then
        releaseShuttle now KEY_J (- FRAME_PIXELS) (st\<lparr>isHoldingJ := False\<rparr>)
      else ([], st))"

subsection \<open>Tape generation and run start\<close>

text \<open>
  The draws of \<open>Math.random()\<close> are a list, consumed from the front; each lies in
  \<open>[0, 1)\<close>. A run that asks for a draw when none is left has no result. The
  do-while loop of \<open>generateSourceTape\<close> draws a colour until it differs from the
  colour of the segment pushed last; it consumes one draw per round. An index outside
  the palette, which a draw in \<open>[0, 1)\<close> never gives, has no result either.
\<close>

fun pickColor ::
  "nat \<Rightarrow> TimelineSegment list \<Rightarrow> real list \<Rightarrow> (color \<times> real list) option" where
  "pickColor i segs [] = None"
| "pickColor i segs (r # rs) =
     (let k = \<lfloor>r * real (length AVAILABLE_COLORS)\<rfloor>
      in if 0 \<le> k \<and> nat k < length AVAILABLE_COLORS then
           (let col = AVAILABLE_COLORS ! nat k
            in if i > 0 \<and> col = seg_color (segs ! (i - 1)) then pickColor i segs rs
               else Some (col, rs))
         else None)"

function genLoop ::
  "nat \<Rightarrow> real \<Rightarrow> TimelineSegment list \<Rightarrow> real list
   \<Rightarrow> (TimelineSegment list \<times> real list) option" where
  "genLoop i currentX segs rs =
     (if i < 200 then
        (case rs of
           [] \<Rightarrow> None
         | r # rs1 \<Rightarrow>
             (let rawWidth = r * (SEGMENT_MAX_WIDTH - SEGMENT_MIN_WIDTH) + SEGMENT_MIN_WIDTH;
                  w = of_int (math_round (rawWidth / FRAME_PIXELS)) * FRAME_PIXELS
              in case pickColor i segs rs1 of
                   None \<Rightarrow> None
                 | Some (col, rs2) \<Rightarrow>
                     genLoop (i + 1) (currentX + w)
                       (segs @ [\<lparr>seg_id = SegId i, seg_x = currentX, seg_width = w,
                                 seg_color = col\<rparr>]) rs2))
      else Some (segs, rs))"
  by pat_completeness auto
termination
  by (relation "measure (\<lambda>(i, currentX, segs, rs). 200 - i)") auto

declare genLoop.simps [simp del]

definition generateSourceTape ::
  "real list \<Rightarrow> (TimelineSegment list \<times> real list) option" where
  "generateSourceTape rs = genLoop 0 0 [] rs"

text \<open>\<open>start\<close>: \<open>tLast\<close> and \<open>tStart\<close> are its two readings of the clock.\<close>

definition start ::
  "real list \<Rightarrow> real \<Rightarrow> real \<Rightarrow> color \<Rightarrow> GameMode \<Rightarrow> GameEngine
   \<Rightarrow> (event list \<times> GameEngine) option" where
  "start rs tLast tStart target mode st =
     (case generateSourceTape rs of
        None \<Rightarrow> None
      | Some (segs, rs') \<Rightarrow>
          (let st = st\<lparr>targetColor := target, gameMode := mode, conveyorOffset := 0,
                        currentSpeed := 0, markIn := None, markOut := None,
                        penaltyCount := 0, isHoldingK := False, isHoldingJ := False,
                        isHoldingL := False, sequenceClips := [], particles := [],
                        sourceSegments := segs, lastTime := tLast, startTime := tStart\<rparr>;
               st = setCharacterMood Idle 0 st
           in Some ([ScoreUpdate 0, PenaltyUpdate 0], snapToFrame st)))"

subsection \<open>Tape predicates\<close>

text \<open>The edit-list invariant: each segment starts where its predecessor ends.\<close>

fun contiguous :: "TimelineSegment list \<Rightarrow> bool" where
  "contiguous [] = True"
| "contiguous [s] = True"
| "contiguous (s # t # r) = (seg_x s + seg_width s = seg_x t \<and> contiguous (t # r))"

definition positiveWidths :: "TimelineSegment list \<Rightarrow> bool" where
  "positiveWidths segs = list_all (\<lambda>s. 0 < seg_width s) segs"

definition totalWidth :: "TimelineSegment list \<Rightarrow> real" where
  "totalWidth segs = sum_list (map seg_width segs)"

text \<open>Segments laid end to end from position \<open>p\<close>.\<close>

fun chainFrom :: "real \<Rightarrow> TimelineSegment list \<Rightarrow> bool" where
  "chainFrom p [] = True"
| "chainFrom p (g # r) = (seg_x g = p \<and> chainFrom (p + seg_width g) r)"

text \<open>
  The part of a marked range that segments cover, in the words of the specification:
  \<open>overlapLen s e g\<close> is the length of the intersection of \<open>[s, e)\<close> with the
  interval \<open>[x, x + width)\<close> of segment \<open>g\<close>, and \<open>coveredLength P segs s e\<close> adds it
  up over the segments whose colour satisfies \<open>P\<close>.
\<close>

definition overlapLen :: "real \<Rightarrow> real \<Rightarrow> TimelineSegment \<Rightarrow> real" where
  "overlapLen s e g = max 0 (min e (seg_x g + seg_width g) - max s (seg_x g))"

definition coveredLength ::
  "(color \<Rightarrow> bool) \<Rightarrow> TimelineSegment list \<Rightarrow> real \<Rightarrow> real \<Rightarrow> real" where
  "coveredLength P segs s e =
     sum_list (map (overlapLen s e) (filter (\<lambda>g. P (seg_color g)) segs))"

text \<open>What the first and the second pass of the ripple delete push for one segment.\<close>

definition keptBefore :: "real \<Rightarrow> TimelineSegment \<Rightarrow> TimelineSegment list" where
  "keptBefore s g =
     (if seg_x g + seg_width g \<le> s then [g]
      else if seg_x g < s then [g\<lparr>seg_width := s - seg_x g\<rparr>]
      else [])"

definition keptAfter :: "real \<Rightarrow> real \<Rightarrow> TimelineSegment \<Rightarrow> TimelineSegment list" where
  "keptAfter s e g =
     (if seg_x g \<ge> e then [g\<lparr>seg_x := seg_x g - (e - s)\<rparr>]
      else if seg_x g + seg_width g > e then
        [g\<lparr>seg_x := e - (e - s), seg_width := (seg_x g + seg_width g) - e\<rparr>]
      else [])"

text \<open>
  What the generation loop maintains: after \<open>i\<close> rounds there are \<open>i\<close> segments, the
  first at position 0, each beginning where its predecessor ends, the last ending at
  \<open>currentX\<close>, neighbours of different colour, every width a rounded draw from
  \<open>[SEGMENT_MIN_WIDTH, SEGMENT_MAX_WIDTH]\<close> and every colour one of the palette.
\<close>

definition widthOK :: "TimelineSegment \<Rightarrow> bool" where
  "widthOK g \<longleftrightarrow> (\<exists>raw. SEGMENT_MIN_WIDTH \<le> raw \<and> raw \<le> SEGMENT_MAX_WIDTH
      \<and> seg_width g = of_int (math_round (raw / FRAME_PIXELS)) * FRAME_PIXELS)"

definition tapeInv :: "nat \<Rightarrow> real \<Rightarrow> TimelineSegment list \<Rightarrow> bool" where
  "tapeInv i cx segs \<longleftrightarrow>
     length segs = i
   \<and> (i > 0 \<longrightarrow> seg_x (segs ! 0) = 0)
   \<and> (if i = 0 then cx = 0 else seg_x (segs ! (i - 1)) + seg_width (segs ! (i - 1)) = cx)
   \<and> (\<forall>j. j + 1 < i \<longrightarrow> seg_x (segs ! j) + seg_width (segs ! j) = seg_x (segs ! (j + 1))
                        \<and> seg_color (segs ! j) \<noteq> seg_color (segs ! (j + 1)))
   \<and> (\<forall>g \<in> set segs. widthOK g \<and> seg_color g \<in> set AVAILABLE_COLORS)"

text \<open>A sequence of draws for a whole tape: every width draw is 1/2, the colour draws
  alternate between 0 and 1/2. \<open>altDraws i\<close> is what is left of it after \<open>i\<close> segments.\<close>

definition altDraws :: "nat \<Rightarrow> real list" where
  "altDraws i = concat (map (\<lambda>j. [1 / 2, if even j then 0 else 1 / 2]) [i..<200])"

subsection \<open>Observations and example states\<close>

text \<open>An extraction succeeded when it reported a score; it failed when it signalled
  game over.\<close>

definition succeeded :: "event list \<times> GameEngine \<Rightarrow> bool" where
  "succeeded res = list_ex (\<lambda>ev. case ev of ScoreUpdate t \<Rightarrow> True | _ \<Rightarrow> False) (fst res)"

definition failed :: "event list \<times> GameEngine \<Rightarrow> bool" where
  "failed res = (GameOver \<in> set (fst res))"

definition seg :: "nat \<Rightarrow> real \<Rightarrow> real \<Rightarrow> color \<Rightarrow> TimelineSegment" where
  "seg i sx w col = \<lparr>seg_id = SegId i, seg_x = sx, seg_width = w, seg_color = col\<rparr>"

text \<open>An engine on the 800 by 600 canvas with a given tape, marks, mode and target.\<close>

definition engineWith ::
  "TimelineSegment list \<Rightarrow> real option \<Rightarrow> real option \<Rightarrow> GameMode \<Rightarrow> color \<Rightarrow> GameEngine" where
  "engineWith segs mi mo mode target =
     (newGameEngine 800 600)\<lparr>sourceSegments := segs, markIn := mi, markOut := mo,
        gameMode := mode, targetColor := target\<rparr>"

text \<open>K held, L pressed at time 1000 with offset 3 (tape position 397, grid position 396),
  the tape drifted to offset 10; release at 1100 (tap) and at 1300 (hold).\<close>

definition joggingEngine :: GameEngine where
  "joggingEngine = (newGameEngine 800 600)\<lparr>isHoldingK := True, isHoldingL := True,
      conveyorOffset := 10, currentSpeed := 1 / 5,
      inputTimestamps := [KEY_L \<mapsto> 1000], inputStartOffsets := [KEY_L \<mapsto> 3]\<rparr>"

section \<open>Frame grid\<close>

lemma frameGrid_multiple: "frameGrid (of_int k * FRAME_PIXELS) = of_int k * FRAME_PIXELS"
  by (simp add: frameGrid_def math_round_def FRAME_PIXELS_def)

lemma frameGrid_idem: "frameGrid (frameGrid t) = frameGrid t"
  unfolding frameGrid_def [of t] by (rule frameGrid_multiple)

lemma tapeX_snapToFrame:
  "getTapeXAtPlayhead (snapToFrame st) = frameGrid (getTapeXAtPlayhead st)"
  by (simp add: snapToFrame_def getTapeXAtPlayhead_def Let_def)

text \<open>
  Claim C9. \<open>snapToFrame\<close> is idempotent: for every engine state, whatever its conveyor
  offset, snapping twice gives the state that snapping once gives, and after one snap
  the tape position under the playhead is an integer multiple of \<open>FRAME_PIXELS\<close>.
\<close>

theorem snapToFrame_idempotent:
  "snapToFrame (snapToFrame st) = snapToFrame st
   \<and> (\<exists>k::int. getTapeXAtPlayhead (snapToFrame st) = of_int k * FRAME_PIXELS)"
proof
  have "frameGrid (getTapeXAtPlayhead (snapToFrame st)) = frameGrid (getTapeXAtPlayhead st)"
    by (simp add: tapeX_snapToFrame frameGrid_idem)
  then show "snapToFrame (snapToFrame st) = snapToFrame st"
    by (simp add: snapToFrame_def [of "snapToFrame st"] Let_def)
       (simp add: snapToFrame_def Let_def)
next
  show "\<exists>k::int. getTapeXAtPlayhead (snapToFrame st) = of_int k * FRAME_PIXELS"
    by (auto simp add: tapeX_snapToFrame frameGrid_def)
qed

section \<open>Extraction: outcome of a marked range\<close>

lemma foldl_clip_width:
  "foldl (\<lambda>acc clip. acc + clip_width clip) a cs = a + sum_list (map clip_width cs)"
  by (induction cs arbitrary: a) auto

lemma performExtract_marked:
  assumes "markIn st = Some s" "markOut st = Some e" "s < e"
  shows "performExtract now dnow st =
     (let affected = affectedSegments (sourceSegments st) s e in
      if affected = [] then ([], st)
      else if \<not> (if gameMode st = CAT_MODE then catSuccess (targetColor st) affected s e
                  else standardSuccess (targetColor st) affected s e)
      then ([GameOver], st\<lparr>characterMood := Worried, characterMoodTimer := 120\<rparr>)
      else
        (let total = sum_list (map clip_width (sequenceClips st)) + (e - s);
             st1 = st\<lparr>characterMood := Happy, characterMoodTimer := 60,
                   particles := particles st @ replicate 20
                      \<lparr>p_x = width st / 2, p_y = SEQUENCE_TRACK_Y, p_life = 1,
                        p_color = (if gameMode st = CAT_MODE then ''#f472b6'' else targetColor st),
                        p_type = Heart\<rparr>,
                   sequenceClips := sequenceClips st @
                      [\<lparr>clip_id = ClipId dnow, clip_width = e - s, clip_color = targetColor st\<rparr>]\<rparr>
         in if total \<ge> WIN_PIXELS
            then ([ScoreUpdate total, FinalScoreUpdate (calculateFinalScore now st1), Win], st1)
            else ([ScoreUpdate total],
                  st1\<lparr>sourceSegments := rippleDelete (sourceSegments st) s e,
                       conveyorOffset := width st / 2 - frameGrid s,
                       markIn := None, markOut := None, currentSpeed := 0\<rparr>)))"
  using assms
  by (simp add: performExtract_def Let_def setCharacterMood_def createParticles_def
      foldl_clip_width snapToFrame_def getTapeXAtPlayhead_def)

text \<open>
  Claim C10. With both marks set, \<open>markOut > markIn\<close>, and no source segment
  overlapping \<open>[markIn, markOut)\<close>, the extract key does nothing: \<open>performExtract\<close>
  returns the engine state it was given and invokes no callback, so the attempt neither
  succeeds nor ends the run.
\<close>

theorem performExtract_no_overlap:
  assumes "markIn st = Some s" "markOut st = Some e" "s < e"
    and "\<forall>g \<in> set (sourceSegments st). e \<le> seg_x g \<or> seg_x g + seg_width g \<le> s"
  shows "performExtract now dnow st = ([], st)
       \<and> handleKeyDown now dnow KEY_PERIOD st = ([], st)"
proof -
  have "affectedSegments (sourceSegments st) s e = []"
    using assms(4) by (auto simp: affectedSegments_def filter_empty_conv)
  then have "performExtract now dnow st = ([], st)"
    by (simp add: performExtract_marked [OF assms(1-3)])
  then show ?thesis by (simp add: handleKeyDown_def key_defs)
qed


theorem performExtract_no_overlap_witness:
  "performExtract 0 0 (engineWith [seg 0 0 300 RED] (Some 300) (Some 360) STANDARD RED)
     = ([], engineWith [seg 0 0 300 RED] (Some 300) (Some 360) STANDARD RED)
   \<and> handleKeyDown 0 0 KEY_PERIOD (engineWith [seg 0 0 300 RED] (Some 300) (Some 360) CAT_MODE RED)
     = ([], engineWith [seg 0 0 300 RED] (Some 300) (Some 360) CAT_MODE RED)"
  using performExtract_no_overlap
          [of "engineWith [seg 0 0 300 RED] (Some 300) (Some 360) STANDARD RED" 300 360 0 0]
        performExtract_no_overlap
          [of "engineWith [seg 0 0 300 RED] (Some 300) (Some 360) CAT_MODE RED" 300 360 0 0]
  by (simp add: engineWith_def newGameEngine_def seg_def)

text \<open>
  Claim C7. An extraction attempt whose validation fails (either mode, both marks set,
  positive duration, at least one overlapping segment) invokes the game-over callback
  and nothing else, and leaves the tape, the sequence clips, both marks, the conveyor
  offset and the penalty count as they were; only the mood changes.
\<close>

theorem performExtract_failure:
  assumes "markIn st = Some s" "markOut st = Some e" "s < e"
    and "affectedSegments (sourceSegments st) s e \<noteq> []"
    and "\<not> (if gameMode st = CAT_MODE
            then catSuccess (targetColor st) (affectedSegments (sourceSegments st) s e) s e
            else standardSuccess (targetColor st) (affectedSegments (sourceSegments st) s e) s e)"
  shows "performExtract now dnow st
           = ([GameOver], st\<lparr>characterMood := Worried, characterMoodTimer := 120\<rparr>)
       \<and> sourceSegments (snd (performExtract now dnow st)) = sourceSegments st
       \<and> sequenceClips (snd (performExtract now dnow st)) = sequenceClips st
       \<and> markIn (snd (performExtract now dnow st)) = markIn st
       \<and> markOut (snd (performExtract now dnow st)) = markOut st
       \<and> conveyorOffset (snd (performExtract now dnow st)) = conveyorOffset st
       \<and> penaltyCount (snd (performExtract now dnow st)) = penaltyCount st"
  using assms(4,5) by (simp add: performExtract_marked [OF assms(1-3)])

lemma standard_fail_example:
  "\<not> standardSuccess RED (affectedSegments [seg 0 0 300 RED, seg 1 300 120 BLUE] 0 360) 0 360"
  by (simp add: standardSuccess_def correctColorLength_def affectedSegments_def seg_def color_defs)

theorem performExtract_failure_witness:
  "performExtract 0 0 (engineWith [seg 0 0 300 RED, seg 1 300 120 BLUE] (Some 0) (Some 360) STANDARD RED)
     = ([GameOver],
        (engineWith [seg 0 0 300 RED, seg 1 300 120 BLUE] (Some 0) (Some 360) STANDARD RED)
          \<lparr>characterMood := Worried, characterMoodTimer := 120\<rparr>)"
  using performExtract_failure
          [of "engineWith [seg 0 0 300 RED, seg 1 300 120 BLUE] (Some 0) (Some 360) STANDARD RED"
              0 360 0 0] standard_fail_example
  by (simp add: engineWith_def newGameEngine_def)
     (simp add: affectedSegments_def seg_def)

text \<open>
  Claim C6, as the code has it. A successful extraction appends one clip whose width is
  the marked duration and whose colour is the target colour. The win signal is given
  exactly when the accumulated clip width, this clip included, is at least
  \<open>WIN_PIXELS\<close> (1200, equality included), and not when it is below. The terminal score
  reported with the win is \<open>max 0 \<lfloor>v\<rfloor>\<close> where \<open>v\<close> is
  \<open>10000 - 10 * elapsedSeconds - 50 * penaltyCount\<close> evaluated in double arithmetic,
  every operation rounded to the nearest double; it is never negative, and it is the
  exact value of the formula whenever no operation rounds.
\<close>

theorem performExtract_success:
  assumes "markIn st = Some s" "markOut st = Some e" "s < e"
    and "affectedSegments (sourceSegments st) s e \<noteq> []"
    and "if gameMode st = CAT_MODE
         then catSuccess (targetColor st) (affectedSegments (sourceSegments st) s e) s e
         else standardSuccess (targetColor st) (affectedSegments (sourceSegments st) s e) s e"
  shows "sequenceClips (snd (performExtract now dnow st))
           = sequenceClips st @
             [\<lparr>clip_id = ClipId dnow, clip_width = e - s, clip_color = targetColor st\<rparr>]
       \<and> (Win \<in> set (fst (performExtract now dnow st))
            \<longleftrightarrow> sum_list (map clip_width (sequenceClips st)) + (e - s) \<ge> WIN_PIXELS)
       \<and> (sum_list (map clip_width (sequenceClips st)) + (e - s) \<ge> WIN_PIXELS \<longrightarrow>
            fst (performExtract now dnow st)
              = [ScoreUpdate (sum_list (map clip_width (sequenceClips st)) + (e - s)),
                 FinalScoreUpdate
                   (max 0 \<lfloor>fl (fl (10000 - fl (fl (fl (now - startTime st) / 1000) * 10))
                                  - fl (real (penaltyCount st) * 50))\<rfloor>),
                 Win])
       \<and> (sum_list (map clip_width (sequenceClips st)) + (e - s) < WIN_PIXELS \<longrightarrow>
            fst (performExtract now dnow st)
              = [ScoreUpdate (sum_list (map clip_width (sequenceClips st)) + (e - s))])
       \<and> 0 \<le> calculateFinalScore now st
       \<and> (fl (now - startTime st) = now - startTime st
            \<and> fl ((now - startTime st) / 1000) = (now - startTime st) / 1000
            \<and> fl ((now - startTime st) / 1000 * 10) = (now - startTime st) / 1000 * 10
            \<and> fl (10000 - (now - startTime st) / 1000 * 10)
                 = 10000 - (now - startTime st) / 1000 * 10
            \<and> fl (real (penaltyCount st) * 50) = real (penaltyCount st) * 50
            \<and> fl (10000 - (now - startTime st) / 1000 * 10 - real (penaltyCount st) * 50)
                 = 10000 - (now - startTime st) / 1000 * 10 - real (penaltyCount st) * 50
            \<longrightarrow> calculateFinalScore now st
                  = max 0 \<lfloor>10000 - 10 * ((now - startTime st) / 1000)
                             - 50 * real (penaltyCount st)\<rfloor>)"
proof -
  have events: "performExtract now dnow st =
      (let total = sum_list (map clip_width (sequenceClips st)) + (e - s);
           st1 = st\<lparr>characterMood := Happy, characterMoodTimer := 60,
                   particles := particles st @ replicate 20
                      \<lparr>p_x = width st / 2, p_y = SEQUENCE_TRACK_Y, p_life = 1,
                        p_color = (if gameMode st = CAT_MODE then ''#f472b6'' else targetColor st),
                        p_type = Heart\<rparr>,
                   sequenceClips := sequenceClips st @
                      [\<lparr>clip_id = ClipId dnow, clip_width = e - s, clip_color = targetColor st\<rparr>]\<rparr>
         in if total \<ge> WIN_PIXELS
            then ([ScoreUpdate total, FinalScoreUpdate (calculateFinalScore now st1), Win], st1)
            else ([ScoreUpdate total],
                  st1\<lparr>sourceSegments := rippleDelete (sourceSegments st) s e,
                       conveyorOffset := width st / 2 - frameGrid s,
                       markIn := None, markOut := None, currentSpeed := 0\<rparr>))"
    using assms(4,5) by (simp add: performExtract_marked [OF assms(1-3)] Let_def)
  have exact: "calculateFinalScore now st
                  = max 0 \<lfloor>10000 - 10 * ((now - startTime st) / 1000)
                             - 50 * real (penaltyCount st)\<rfloor>"
    if "fl (now - startTime st) = now - startTime st"
      "fl ((now - startTime st) / 1000) = (now - startTime st) / 1000"
      "fl ((now - startTime st) / 1000 * 10) = (now - startTime st) / 1000 * 10"
      "fl (10000 - (now - startTime st) / 1000 * 10) = 10000 - (now - startTime st) / 1000 * 10"
      "fl (real (penaltyCount st) * 50) = real (penaltyCount st) * 50"
      "fl (10000 - (now - startTime st) / 1000 * 10 - real (penaltyCount st) * 50)
         = 10000 - (now - startTime st) / 1000 * 10 - real (penaltyCount st) * 50"
  proof -
    have "calculateFinalScore now st
            = max 0 \<lfloor>10000 - (now - startTime st) / 1000 * 10 - real (penaltyCount st) * 50\<rfloor>"
      unfolding calculateFinalScore_def Let_def that ..
    then show ?thesis by (simp add: mult.commute)
  qed
  show ?thesis
    unfolding events using exact
    by (simp add: Let_def calculateFinalScore_def)
qed

lemma standard_ok_example:
  "standardSuccess RED (affectedSegments [seg 0 0 300 RED] 0 300) 0 300"
  by (simp add: standardSuccess_def correctColorLength_def affectedSegments_def seg_def)

lemma score_example:
  "\<lfloor>fl (fl (10000 - fl (fl (fl (5000 - 0) / 1000) * 10)) - fl (real (2::nat) * 50))\<rfloor> = 9850"
  by (simp add: fl_eval)

theorem performExtract_success_witness:
  "fst (performExtract 5000 7
         ((engineWith [seg 0 0 300 RED] (Some 0) (Some 300) STANDARD RED)
            \<lparr>sequenceClips := [\<lparr>clip_id = ClipId 1, clip_width = 900, clip_color = RED\<rparr>],
             penaltyCount := 2\<rparr>))
     = [ScoreUpdate 1200, FinalScoreUpdate 9850, Win]
   \<and> fst (performExtract 5000 7 (engineWith [seg 0 0 300 RED] (Some 0) (Some 300) STANDARD RED))
     = [ScoreUpdate 300]"
  using performExtract_success
          [of "(engineWith [seg 0 0 300 RED] (Some 0) (Some 300) STANDARD RED)
                 \<lparr>sequenceClips := [\<lparr>clip_id = ClipId 1, clip_width = 900, clip_color = RED\<rparr>],
                  penaltyCount := 2\<rparr>" 0 300 5000 7,
           THEN conjunct2, THEN conjunct2, THEN conjunct1]
        performExtract_success
          [of "engineWith [seg 0 0 300 RED] (Some 0) (Some 300) STANDARD RED" 0 300 5000 7,
           THEN conjunct2, THEN conjunct2, THEN conjunct2, THEN conjunct1]
        standard_ok_example score_example
  by (simp add: engineWith_def newGameEngine_def WIN_PIXELS_def)
     (simp add: affectedSegments_def seg_def)

lemma score_rounded_example:
  "\<lfloor>fl (fl (10000 - fl (fl (fl (1300 + 1 / 2 ^ 42 - 1000) / 1000) * 10)) - fl (real (0::nat) * 50))\<rfloor>
     = 9997"
  by (simp add: fl_eval)

text \<open>
  Claim C6 as stated gives the score as the exact value of the formula. With the run
  started at clock reading 1000 and won at reading \<open>1300 + 2^(-42)\<close> (the double
  written 1300.0000000000002), without penalties, the score reported is 9997; the exact
  value of the formula is just below 9997, and its floor is 9996.
\<close>

theorem final_score_rounding_counterexample:
  "fst (performExtract (1300 + 1 / 2 ^ 42) 7
         ((engineWith [seg 0 0 300 RED] (Some 0) (Some 300) STANDARD RED)
            \<lparr>sequenceClips := [\<lparr>clip_id = ClipId 1, clip_width = 900, clip_color = RED\<rparr>],
             startTime := 1000\<rparr>))
     = [ScoreUpdate 1200, FinalScoreUpdate 9997, Win]
   \<and> max 0 \<lfloor>10000 - 10 * ((1300 + 1 / 2 ^ 42 - 1000) / 1000) - 50 * real (0::nat)\<rfloor>
     = (9996::int)"
proof
  show "fst (performExtract (1300 + 1 / 2 ^ 42) 7
         ((engineWith [seg 0 0 300 RED] (Some 0) (Some 300) STANDARD RED)
            \<lparr>sequenceClips := [\<lparr>clip_id = ClipId 1, clip_width = 900, clip_color = RED\<rparr>],
             startTime := 1000\<rparr>))
     = [ScoreUpdate 1200, FinalScoreUpdate 9997, Win]"
    using standard_ok_example score_rounded_example
    by (simp add: performExtract_marked [of _ 0 300] engineWith_def newGameEngine_def
          WIN_PIXELS_def calculateFinalScore_def Let_def)
       (simp add: affectedSegments_def seg_def)
next
  show "max 0 \<lfloor>10000 - 10 * ((1300 + 1 / 2 ^ 42 - 1000) / 1000) - 50 * real (0::nat)\<rfloor>
     = (9996::int)"
    by simp
qed

section \<open>Coverage of a marked range\<close>

lemma contiguous_chainFrom: "contiguous (g # r) = chainFrom (seg_x g) (g # r)"
  by (induction r arbitrary: g) auto

lemma totalWidth_nonneg: "positiveWidths segs \<Longrightarrow> 0 \<le> totalWidth segs"
  by (induction segs) (auto simp: positiveWidths_def totalWidth_def)

lemma totalWidth_Cons [simp]: "totalWidth (g # r) = seg_width g + totalWidth r"
  by (simp add: totalWidth_def)

lemma positiveWidths_Cons [simp]:
  "positiveWidths (g # r) = (0 < seg_width g \<and> positiveWidths r)"
  by (simp add: positiveWidths_def)

lemma overlap_step:
  fixes p w T s e :: real
  assumes "0 < w" "0 \<le> T"
  shows "max 0 (min e (p + w) - max s p) + max 0 (min e (p + w + T) - max s (p + w))
           = max 0 (min e (p + w + T) - max s p)"
  using assms by (simp add: max_def min_def)

lemma overlap_chain:
  "chainFrom p segs \<Longrightarrow> positiveWidths segs \<Longrightarrow>
   sum_list (map (overlapLen s e) segs) = max 0 (min e (p + totalWidth segs) - max s p)"
proof (induction segs arbitrary: p)
  case Nil
  then show ?case by (simp add: totalWidth_def)
next
  case (Cons g r)
  have T: "0 \<le> totalWidth r" using Cons.prems by (simp add: totalWidth_nonneg)
  have g: "seg_x g = p" "0 < seg_width g" using Cons.prems by simp_all
  have "sum_list (map (overlapLen s e) r)
          = max 0 (min e (p + seg_width g + totalWidth r) - max s (p + seg_width g))"
    using Cons.IH [of "p + seg_width g"] Cons.prems by simp
  moreover have "overlapLen s e g = max 0 (min e (p + seg_width g) - max s p)"
    by (simp add: overlapLen_def g)
  ultimately have "sum_list (map (overlapLen s e) (g # r))
      = max 0 (min e (p + seg_width g + totalWidth r) - max s p)"
    using overlap_step [OF g(2) T, of e p s] by simp
  then show ?case by (simp add: add.assoc)
qed

lemma overlapLen_nonneg: "0 \<le> overlapLen s e g"
  by (simp add: overlapLen_def)

lemma covered_split:
  "coveredLength P segs s e + coveredLength (\<lambda>c. \<not> P c) segs s e
     = sum_list (map (overlapLen s e) segs)"
  by (induction segs) (auto simp: coveredLength_def)

lemma covered_nonneg: "0 \<le> coveredLength P segs s e"
  unfolding coveredLength_def by (rule sum_list_nonneg) (auto simp: overlapLen_nonneg)

lemma covered_total_le:
  assumes "contiguous segs" "positiveWidths segs" "s < e"
  shows "sum_list (map (overlapLen s e) segs) \<le> e - s"
proof (cases segs)
  case Nil
  then show ?thesis using assms by simp
next
  case (Cons g r)
  then have "chainFrom (seg_x g) segs" using assms(1) by (simp add: contiguous_chainFrom)
  from overlap_chain [OF this assms(2)] show ?thesis using assms(3)
    by (simp add: max_def min_def split: if_splits)
qed

lemma correctColorLength_foldl:
  "foldl (\<lambda>acc seg. if seg_color seg = target
            then acc + (min e (seg_x seg + seg_width seg) - max s (seg_x seg)) else acc) a xs
   = a + sum_list (map (\<lambda>g. min e (seg_x g + seg_width g) - max s (seg_x g))
                      (filter (\<lambda>g. seg_color g = target) xs))"
  by (induction xs arbitrary: a) auto

lemma correctColorLength_sum:
  "correctColorLength target xs s e
     = sum_list (map (\<lambda>g. min e (seg_x g + seg_width g) - max s (seg_x g))
                     (filter (\<lambda>g. seg_color g = target) xs))"
  by (simp add: correctColorLength_def Let_def correctColorLength_foldl)

lemma overlapLen_affected:
  assumes "0 < seg_width g" "s < e"
  shows "overlapLen s e g =
     (if seg_x g < e \<and> seg_x g + seg_width g > s
      then min e (seg_x g + seg_width g) - max s (seg_x g) else 0)"
  using assms by (simp add: overlapLen_def max_def min_def)

lemma correctColorLength_covered:
  assumes "positiveWidths segs" "s < e"
  shows "correctColorLength target (affectedSegments segs s e) s e
           = coveredLength (\<lambda>c. c = target) segs s e"
proof -
  have "sum_list (map (\<lambda>g. min e (seg_x g + seg_width g) - max s (seg_x g))
          (filter (\<lambda>g. seg_color g = target)
             (filter (\<lambda>g. seg_x g < e \<and> seg_x g + seg_width g > s) segs)))
        = sum_list (map (overlapLen s e) (filter (\<lambda>g. seg_color g = target) segs))"
    using assms(1)
  proof (induction segs)
    case Nil
    then show ?case by simp
  next
    case (Cons g r)
    then have w: "0 < seg_width g" and r: "positiveWidths r" by simp_all
    show ?case using Cons.IH [OF r] overlapLen_affected [OF w assms(2)] by simp
  qed
  then show ?thesis
    by (simp add: correctColorLength_sum affectedSegments_def coveredLength_def)
qed

lemma covered_member_le:
  "g \<in> set segs \<Longrightarrow> P (seg_color g) \<Longrightarrow> overlapLen s e g \<le> coveredLength P segs s e"
proof (induction segs)
  case Nil
  then show ?case by simp
next
  case (Cons h r)
  have r: "0 \<le> coveredLength P r s e" by (rule covered_nonneg)
  have h: "0 \<le> overlapLen s e h" by (rule overlapLen_nonneg)
  show ?case
  proof (cases "g = h")
    case True
    then show ?thesis using Cons.prems r by (simp add: coveredLength_def)
  next
    case False
    then have "overlapLen s e g \<le> coveredLength P r s e" using Cons by simp
    then show ?thesis using h by (simp add: coveredLength_def)
  qed
qed

lemma covered_unaffected:
  assumes "positiveWidths segs" "s < e" "affectedSegments segs s e = []"
  shows "coveredLength P segs s e = 0"
  using assms(1,3)
proof (induction segs)
  case Nil
  then show ?case by (simp add: coveredLength_def)
next
  case (Cons g r)
  then have w: "0 < seg_width g" and r: "positiveWidths r" by simp_all
  from Cons.prems(2) have na: "\<not> (seg_x g < e \<and> seg_x g + seg_width g > s)"
    and ra: "affectedSegments r s e = []"
    by (auto simp: affectedSegments_def split: if_splits)
  have "overlapLen s e g = 0" using overlapLen_affected [OF w assms(2)] na by simp
  then show ?case using Cons.IH [OF r ra] by (simp add: coveredLength_def)
qed

section \<open>Validation in STANDARD mode\<close>

lemma succeeded_standard:
  assumes "gameMode st = STANDARD" "markIn st = Some s" "markOut st = Some e" "s < e"
    and "positiveWidths (sourceSegments st)"
  shows "succeeded (performExtract now dnow st)
           \<longleftrightarrow> 95 / 100 \<le> coveredLength (\<lambda>c. c = targetColor st) (sourceSegments st) s e / (e - s)"
    and "\<not> succeeded (performExtract now dnow st)
           \<Longrightarrow> affectedSegments (sourceSegments st) s e \<noteq> []
           \<Longrightarrow> failed (performExtract now dnow st)"
proof -
  let ?aff = "affectedSegments (sourceSegments st) s e"
  let ?cov = "coveredLength (\<lambda>c. c = targetColor st) (sourceSegments st) s e"
  have valid: "standardSuccess (targetColor st) ?aff s e \<longleftrightarrow> 95 / 100 \<le> ?cov / (e - s)"
    by (simp add: standardSuccess_def Let_def correctColorLength_covered [OF assms(5,4)])
  have empty: "?aff = [] \<Longrightarrow> \<not> 95 / 100 \<le> ?cov / (e - s)"
    using covered_unaffected [OF assms(5,4)] by simp
  show "succeeded (performExtract now dnow st) \<longleftrightarrow> 95 / 100 \<le> ?cov / (e - s)"
    using valid empty assms(1)
    by (auto simp: performExtract_marked [OF assms(2-4)] Let_def succeeded_def)
  show "\<not> succeeded (performExtract now dnow st) \<Longrightarrow> ?aff \<noteq> []
           \<Longrightarrow> failed (performExtract now dnow st)"
    using assms(1)
    by (auto simp: performExtract_marked [OF assms(2-4)] Let_def succeeded_def failed_def
        split: if_splits)
qed

text \<open>
  Claim C2. In \<open>STANDARD\<close> mode, with both marks set and \<open>markOut > markIn\<close>, on a
  tape whose segments have positive width, the extraction succeeds if and only if the
  part of \<open>[markIn, markOut)\<close> covered by segments of the target colour is at least 95%
  of the marked duration. In particular a range that lies inside one target-coloured
  segment succeeds, and on a contiguous tape a range more than 5% of which is covered by
  segments of another colour fails.
\<close>

theorem standard_extraction:
  assumes "gameMode st = STANDARD" "markIn st = Some s" "markOut st = Some e" "s < e"
    and "positiveWidths (sourceSegments st)"
  shows "(succeeded (performExtract now dnow st)
            \<longleftrightarrow> 95 / 100 \<le> coveredLength (\<lambda>c. c = targetColor st) (sourceSegments st) s e / (e - s))
       \<and> ((\<exists>g \<in> set (sourceSegments st).
               seg_color g = targetColor st \<and> seg_x g \<le> s \<and> e \<le> seg_x g + seg_width g)
            \<longrightarrow> succeeded (performExtract now dnow st))
       \<and> (contiguous (sourceSegments st)
            \<and> 5 / 100 < coveredLength (\<lambda>c. c \<noteq> targetColor st) (sourceSegments st) s e / (e - s)
            \<longrightarrow> failed (performExtract now dnow st) \<and> \<not> succeeded (performExtract now dnow st))"
proof (intro conjI impI)
  let ?segs = "sourceSegments st"
  let ?cov = "coveredLength (\<lambda>c. c = targetColor st) ?segs s e"
  let ?off = "coveredLength (\<lambda>c. c \<noteq> targetColor st) ?segs s e"
  note iff = succeeded_standard(1) [OF assms, of now dnow]
  show "succeeded (performExtract now dnow st) \<longleftrightarrow> 95 / 100 \<le> ?cov / (e - s)"
    by (rule iff)
  {
    assume "\<exists>g \<in> set ?segs. seg_color g = targetColor st \<and> seg_x g \<le> s \<and> e \<le> seg_x g + seg_width g"
    then obtain g where g: "g \<in> set ?segs" "seg_color g = targetColor st"
      "seg_x g \<le> s" "e \<le> seg_x g + seg_width g" by blast
    have "overlapLen s e g = e - s" using g(3,4) assms(4) by (simp add: overlapLen_def)
    then have "e - s \<le> ?cov"
      using covered_member_le [of g ?segs "\<lambda>c. c = targetColor st" s e] g(1,2) by simp
    then have "95 / 100 * (e - s) \<le> ?cov" using assms(4) by simp
    then have "95 / 100 \<le> ?cov / (e - s)"
      using assms(4) pos_le_divide_eq [of "e - s" "95 / 100" ?cov] by simp
    then show "succeeded (performExtract now dnow st)" using iff by blast
  }
  {
    assume a: "contiguous ?segs \<and> 5 / 100 < ?off / (e - s)"
    then have off: "5 / 100 * (e - s) < ?off"
      using assms(4) pos_less_divide_eq [of "e - s" "5 / 100" ?off] by simp
    have "?cov + ?off \<le> e - s"
      using covered_total_le [of ?segs s e] a assms(4,5)
        covered_split [of "\<lambda>c. c = targetColor st" ?segs s e] by simp
    then have "?cov < 95 / 100 * (e - s)" using off by simp
    then have "\<not> 95 / 100 \<le> ?cov / (e - s)"
      using assms(4) pos_le_divide_eq [of "e - s" "95 / 100" ?cov] by simp
    then have ns: "\<not> succeeded (performExtract now dnow st)" using iff by blast
    have "affectedSegments ?segs s e \<noteq> []"
    proof
      assume "affectedSegments ?segs s e = []"
      from covered_unaffected [OF assms(5,4) this, of "\<lambda>c. c \<noteq> targetColor st"]
      show False using off assms(4) by simp
    qed
    with ns have "failed (performExtract now dnow st)"
      by (rule succeeded_standard(2) [OF assms])
    with ns show "failed (performExtract now dnow st)" "\<not> succeeded (performExtract now dnow st)"
      by simp_all
  }
qed

theorem standard_extraction_witness:
  "succeeded (performExtract 0 0
      (engineWith [seg 0 0 300 RED, seg 1 300 120 BLUE] (Some 6) (Some 294) STANDARD RED))
   \<and> failed (performExtract 0 0
      (engineWith [seg 0 0 300 RED, seg 1 300 120 BLUE] (Some 0) (Some 360) STANDARD RED))"
  using standard_extraction
          [of "engineWith [seg 0 0 300 RED, seg 1 300 120 BLUE] (Some 6) (Some 294) STANDARD RED"
              6 294 0 0]
        standard_extraction
          [of "engineWith [seg 0 0 300 RED, seg 1 300 120 BLUE] (Some 0) (Some 360) STANDARD RED"
              0 360 0 0]
  by (simp add: engineWith_def newGameEngine_def seg_def positiveWidths_def
        coveredLength_def overlapLen_def color_defs)

section \<open>Validation in CAT mode\<close>

lemma find_filter: "find P (filter Q xs) = find (\<lambda>x. Q x \<and> P x) xs"
  by (induction xs) auto

lemma find_single: "filter P xs = [t] \<Longrightarrow> find P xs = Some t"
  by (induction xs) (auto split: if_splits)

lemma catSuccess_iff:
  "catSuccess target aff s e \<longleftrightarrow>
     (\<exists>t. find (\<lambda>g. seg_color g = target) aff = Some t
          \<and> s \<le> seg_x t + 1 / 10 \<and> seg_x t + seg_width t - 1 / 10 \<le> e
          \<and> seg_x t - s \<le> 60 \<and> e - (seg_x t + seg_width t) \<le> 60)"
  by (auto simp: catSuccess_def Let_def FRAME_PIXELS_def split: option.splits)

lemma succeeded_cat:
  assumes "gameMode st = CAT_MODE" "markIn st = Some s" "markOut st = Some e" "s < e"
  shows "succeeded (performExtract now dnow st)
           \<longleftrightarrow> catSuccess (targetColor st) (affectedSegments (sourceSegments st) s e) s e"
    and "\<not> succeeded (performExtract now dnow st)
           \<Longrightarrow> affectedSegments (sourceSegments st) s e \<noteq> []
           \<Longrightarrow> failed (performExtract now dnow st)"
proof -
  have "affectedSegments (sourceSegments st) s e = []
        \<Longrightarrow> \<not> catSuccess (targetColor st) (affectedSegments (sourceSegments st) s e) s e"
    by (simp add: catSuccess_iff)
  then show "succeeded (performExtract now dnow st)
           \<longleftrightarrow> catSuccess (targetColor st) (affectedSegments (sourceSegments st) s e) s e"
    using assms(1)
    by (auto simp: performExtract_marked [OF assms(2-4)] Let_def succeeded_def)
  show "\<not> succeeded (performExtract now dnow st)
           \<Longrightarrow> affectedSegments (sourceSegments st) s e \<noteq> []
           \<Longrightarrow> failed (performExtract now dnow st)"
    using assms(1)
    by (auto simp: performExtract_marked [OF assms(2-4)] Let_def succeeded_def failed_def
        split: if_splits)
qed

text \<open>
  What the \<open>CAT_MODE\<close> validation decides. With both marks set and
  \<open>markOut > markIn\<close>, the extraction succeeds if and only if some segment of the
  target colour overlaps \<open>[markIn, markOut)\<close> and the first such segment in tape order
  is contained in the range (0.1 px tolerance at either edge), begins at most 60 px
  after \<open>markIn\<close> and ends at most 60 px before \<open>markOut\<close>. When exactly one
  target-coloured segment overlaps the range, success is containment of that segment
  and at most 60 px on either side of it; with no target-coloured segment in the overlap
  set the attempt does not succeed; an attempt with a non-empty overlap set that does
  not succeed is a failure. On a tape that begins with the target segment
  \<open>{x: 0, width: 300}\<close>, marking \<open>[0, 360)\<close> succeeds and marking \<open>[0, 367)\<close> fails.
\<close>

lemma cat_extraction:
  assumes "gameMode st = CAT_MODE" "markIn st = Some s" "markOut st = Some e" "s < e"
  shows "(succeeded (performExtract now dnow st) \<longleftrightarrow>
            (\<exists>i < length (sourceSegments st).
                (\<forall>j < i. \<not> (seg_x (sourceSegments st ! j) < e
                             \<and> s < seg_x (sourceSegments st ! j) + seg_width (sourceSegments st ! j)
                             \<and> seg_color (sourceSegments st ! j) = targetColor st))
              \<and> seg_x (sourceSegments st ! i) < e
              \<and> s < seg_x (sourceSegments st ! i) + seg_width (sourceSegments st ! i)
              \<and> seg_color (sourceSegments st ! i) = targetColor st
              \<and> s \<le> seg_x (sourceSegments st ! i) + 1 / 10
              \<and> seg_x (sourceSegments st ! i) + seg_width (sourceSegments st ! i) - 1 / 10 \<le> e
              \<and> seg_x (sourceSegments st ! i) - s \<le> 60
              \<and> e - (seg_x (sourceSegments st ! i) + seg_width (sourceSegments st ! i)) \<le> 60))
       \<and> (\<forall>t. filter (\<lambda>g. seg_color g = targetColor st)
                  (affectedSegments (sourceSegments st) s e) = [t]
              \<longrightarrow> (succeeded (performExtract now dnow st) \<longleftrightarrow>
                     s \<le> seg_x t + 1 / 10 \<and> seg_x t + seg_width t - 1 / 10 \<le> e
                   \<and> seg_x t - s \<le> 60 \<and> e - (seg_x t + seg_width t) \<le> 60))
       \<and> (filter (\<lambda>g. seg_color g = targetColor st)
              (affectedSegments (sourceSegments st) s e) = []
            \<longrightarrow> \<not> succeeded (performExtract now dnow st))
       \<and> (affectedSegments (sourceSegments st) s e \<noteq> []
            \<and> \<not> succeeded (performExtract now dnow st)
            \<longrightarrow> failed (performExtract now dnow st))
       \<and> (\<forall>t rest. sourceSegments st = t # rest \<and> seg_x t = 0 \<and> seg_width t = 300
                    \<and> seg_color t = targetColor st \<and> s = 0
              \<longrightarrow> (e = 360 \<longrightarrow> succeeded (performExtract now dnow st))
                \<and> (e = 367 \<longrightarrow> failed (performExtract now dnow st)
                                 \<and> \<not> succeeded (performExtract now dnow st)))"
proof (intro conjI allI impI)
  let ?segs = "sourceSegments st"
  let ?aff = "affectedSegments ?segs s e"
  let ?tgt = "\<lambda>g. seg_color g = targetColor st"
  note iff = succeeded_cat(1) [OF assms, of now dnow]
  have find_aff: "find ?tgt ?aff
      = find (\<lambda>g. (seg_x g < e \<and> s < seg_x g + seg_width g) \<and> seg_color g = targetColor st) ?segs"
    by (simp add: affectedSegments_def find_filter)
  show "succeeded (performExtract now dnow st) \<longleftrightarrow>
            (\<exists>i < length ?segs.
                (\<forall>j < i. \<not> (seg_x (?segs ! j) < e
                             \<and> s < seg_x (?segs ! j) + seg_width (?segs ! j)
                             \<and> seg_color (?segs ! j) = targetColor st))
              \<and> seg_x (?segs ! i) < e
              \<and> s < seg_x (?segs ! i) + seg_width (?segs ! i)
              \<and> seg_color (?segs ! i) = targetColor st
              \<and> s \<le> seg_x (?segs ! i) + 1 / 10
              \<and> seg_x (?segs ! i) + seg_width (?segs ! i) - 1 / 10 \<le> e
              \<and> seg_x (?segs ! i) - s \<le> 60
              \<and> e - (seg_x (?segs ! i) + seg_width (?segs ! i)) \<le> 60)"
    unfolding iff catSuccess_iff find_aff find_Some_iff by (safe; blast)
  {
    fix t assume "filter ?tgt ?aff = [t]"
    then have "find ?tgt ?aff = Some t" by (rule find_single)
    then show "succeeded (performExtract now dnow st) \<longleftrightarrow>
                     s \<le> seg_x t + 1 / 10 \<and> seg_x t + seg_width t - 1 / 10 \<le> e
                   \<and> seg_x t - s \<le> 60 \<and> e - (seg_x t + seg_width t) \<le> 60"
      by (simp add: iff catSuccess_iff)
  }
  {
    assume "filter ?tgt ?aff = []"
    then have "find ?tgt ?aff = None" by (simp add: find_None_iff filter_empty_conv)
    then show "\<not> succeeded (performExtract now dnow st)" by (simp add: iff catSuccess_iff)
  }
  {
    assume "?aff \<noteq> [] \<and> \<not> succeeded (performExtract now dnow st)"
    then show "failed (performExtract now dnow st)"
      using succeeded_cat(2) [OF assms, of now dnow] by blast
  }
  {
    fix t rest
    assume a: "?segs = t # rest \<and> seg_x t = 0 \<and> seg_width t = 300
                    \<and> seg_color t = targetColor st \<and> s = 0"
    then have f: "find ?tgt ?aff = Some t" and ne: "?aff \<noteq> []"
      using assms(4) by (simp_all add: affectedSegments_def)
    {
      assume "e = 360"
      then show "succeeded (performExtract now dnow st)"
        using a f by (simp add: iff catSuccess_iff)
    }
    {
      assume e: "e = 367"
      then show ns: "\<not> succeeded (performExtract now dnow st)"
        using a f by (simp add: iff catSuccess_iff)
      then show "failed (performExtract now dnow st)"
        using succeeded_cat(2) [OF assms, of now dnow] ne by blast
    }
  }
qed

lemma cat_extraction_example:
  "succeeded (performExtract 0 0
      (engineWith [seg 0 0 300 RED, seg 1 300 120 BLUE] (Some 0) (Some 360) CAT_MODE RED))
   \<and> failed (performExtract 0 0
      (engineWith [seg 0 0 300 RED, seg 1 300 120 BLUE] (Some 0) (Some 367) CAT_MODE RED))"
  using cat_extraction
          [of "engineWith [seg 0 0 300 RED, seg 1 300 120 BLUE] (Some 0) (Some 360) CAT_MODE RED"
              0 360 0 0, THEN conjunct2, THEN conjunct2, THEN conjunct2, THEN conjunct2]
        cat_extraction
          [of "engineWith [seg 0 0 300 RED, seg 1 300 120 BLUE] (Some 0) (Some 367) CAT_MODE RED"
              0 367 0 0, THEN conjunct2, THEN conjunct2, THEN conjunct2, THEN conjunct2]
  by (simp add: engineWith_def newGameEngine_def seg_def color_defs)

text \<open>
  Claim C3. The claim makes more than one target-coloured segment in the overlap set,
  and partial containment of a target segment, a failure; the comments of the code
  say the same (the allowance is for silence of another colour, and a meow that is cut
  off fails). The code looks only at the first target-coloured segment and measures the
  silence after it as a distance, whatever lies there. On the tape red \<open>[0, 102)\<close>,
  green \<open>[102, 144)\<close>, blue \<open>[144, 150)\<close>, red \<open>[150, 252)\<close> with target red, the range
  \<open>[0, 156)\<close> overlaps all four segments and cuts the second red one 6 px after its
  start; the extraction succeeds and a clip of width 156 is appended.
\<close>

theorem cat_cut_second_target_accepted:
  "fst (performExtract 0 0
      (engineWith [seg 0 0 102 RED, seg 1 102 42 GREEN, seg 2 144 6 BLUE, seg 3 150 102 RED]
         (Some 0) (Some 156) CAT_MODE RED)) = [ScoreUpdate 156]
   \<and> sequenceClips (snd (performExtract 0 0
      (engineWith [seg 0 0 102 RED, seg 1 102 42 GREEN, seg 2 144 6 BLUE, seg 3 150 102 RED]
         (Some 0) (Some 156) CAT_MODE RED)))
       = [\<lparr>clip_id = ClipId 0, clip_width = 156, clip_color = RED\<rparr>]
   \<and> affectedSegments
         [seg 0 0 102 RED, seg 1 102 42 GREEN, seg 2 144 6 BLUE, seg 3 150 102 RED] 0 156
       = [seg 0 0 102 RED, seg 1 102 42 GREEN, seg 2 144 6 BLUE, seg 3 150 102 RED]"
  by (simp add: performExtract_marked [of _ 0 156] engineWith_def newGameEngine_def seg_def
        affectedSegments_def catSuccess_def FRAME_PIXELS_def WIN_PIXELS_def
        color_defs Let_def)

section \<open>Ripple delete\<close>

lemma foldl_pass1:
  "foldl (\<lambda>acc seg.
             if seg_x seg + seg_width seg \<le> s then acc @ [seg]
             else if seg_x seg < s then acc @ [seg\<lparr>seg_width := s - seg_x seg\<rparr>]
             else acc) a xs
     = a @ concat (map (keptBefore s) xs)"
  by (induction xs arbitrary: a) (auto simp: keptBefore_def)

lemma foldl_pass2:
  "foldl (\<lambda>acc seg.
             if seg_x seg \<ge> e then acc @ [seg\<lparr>seg_x := seg_x seg - (e - s)\<rparr>]
             else if seg_x seg + seg_width seg > e then
               acc @ [seg\<lparr>seg_x := e - (e - s), seg_width := (seg_x seg + seg_width seg) - e\<rparr>]
             else acc) a xs
     = a @ concat (map (keptAfter s e) xs)"
  by (induction xs arbitrary: a) (auto simp: keptAfter_def)

lemma rippleDelete_concat:
  "rippleDelete segs s e = concat (map (keptBefore s) segs) @ concat (map (keptAfter s e) segs)"
  unfolding rippleDelete_def Let_def foldl_pass1 foldl_pass2 by simp

lemma chainFrom_lower:
  "chainFrom p r \<Longrightarrow> positiveWidths r \<Longrightarrow> h \<in> set r \<Longrightarrow> p \<le> seg_x h"
proof (induction r arbitrary: p)
  case Nil
  then show ?case by simp
next
  case (Cons g r)
  show ?case
  proof (cases "h = g")
    case True
    then show ?thesis using Cons.prems by simp
  next
    case False
    then have "p + seg_width g \<le> seg_x h" using Cons by simp
    then show ?thesis using Cons.prems(2) by simp
  qed
qed

lemma chainFrom_append:
  "chainFrom p (xs @ ys) = (chainFrom p xs \<and> chainFrom (p + totalWidth xs) ys)"
  by (induction xs arbitrary: p) (auto simp: totalWidth_def add.assoc)

lemma chainFrom_contiguous: "chainFrom p xs \<Longrightarrow> contiguous xs"
  by (cases xs) (auto simp: contiguous_chainFrom)

lemma chainFrom_last:
  "chainFrom p xs \<Longrightarrow> xs \<noteq> [] \<Longrightarrow>
   seg_x (last xs) + seg_width (last xs) = p + totalWidth xs"
  by (induction xs arbitrary: p) (auto simp: totalWidth_def)

lemma totalWidth_Nil [simp]: "totalWidth [] = 0"
  by (simp add: totalWidth_def)

lemma totalWidth_append [simp]: "totalWidth (xs @ ys) = totalWidth xs + totalWidth ys"
  by (simp add: totalWidth_def)

lemma positiveWidths_append [simp]:
  "positiveWidths (xs @ ys) = (positiveWidths xs \<and> positiveWidths ys)"
  by (simp add: positiveWidths_def)

lemma totalWidth_pos: "positiveWidths xs \<Longrightarrow> xs \<noteq> [] \<Longrightarrow> 0 < totalWidth xs"
  by (cases xs) (auto simp: add_pos_nonneg totalWidth_nonneg)

lemma keptBefore_none:
  "positiveWidths r \<Longrightarrow> (\<And>h. h \<in> set r \<Longrightarrow> s \<le> seg_x h)
   \<Longrightarrow> concat (map (keptBefore s) r) = []"
proof (induction r)
  case Nil
  then show ?case by simp
next
  case (Cons a r)
  have "s \<le> seg_x a" "0 < seg_width a" using Cons.prems by simp_all
  then have "keptBefore s a = []" by (simp add: keptBefore_def)
  moreover have "concat (map (keptBefore s) r) = []" using Cons by simp
  ultimately show ?case by (simp del: concat_eq_Nil_conv)
qed

lemma pass1_chain:
  "chainFrom p segs \<Longrightarrow> positiveWidths segs \<Longrightarrow>
   chainFrom p (concat (map (keptBefore s) segs))
   \<and> totalWidth (concat (map (keptBefore s) segs)) = max 0 (min s (p + totalWidth segs) - p)"
proof (induction segs arbitrary: p)
  case Nil
  then show ?case by (simp add: totalWidth_def)
next
  case (Cons g r)
  have g: "seg_x g = p" "0 < seg_width g" and r: "chainFrom (p + seg_width g) r" "positiveWidths r"
    using Cons.prems by simp_all
  have T: "0 \<le> totalWidth r" using r(2) by (rule totalWidth_nonneg)
  note IH = Cons.IH [OF r]
  show ?case
  proof (cases "p + seg_width g \<le> s")
    case True
    then have "keptBefore s g = [g]" by (simp add: keptBefore_def g)
    then show ?thesis using IH g T True by (simp add: max_def min_def)
  next
    case False
    have N: "concat (map (keptBefore s) r) = []"
    proof (rule keptBefore_none [OF r(2)])
      fix h assume "h \<in> set r"
      from chainFrom_lower [OF r this] show "s \<le> seg_x h" using False by simp
    qed
    have k: "keptBefore s g = (if p < s then [g\<lparr>seg_width := s - p\<rparr>] else [])"
      using False by (simp add: keptBefore_def g)
    show ?thesis using False g T
      by (simp add: k N max_def min_def del: concat_eq_Nil_conv)
  qed
qed

lemma pass2_chain:
  "chainFrom p segs \<Longrightarrow> positiveWidths segs \<Longrightarrow> s < e \<Longrightarrow>
   chainFrom (max p e - (e - s)) (concat (map (keptAfter s e) segs))
   \<and> totalWidth (concat (map (keptAfter s e) segs)) = max 0 (p + totalWidth segs - max p e)"
proof (induction segs arbitrary: p)
  case Nil
  then show ?case by (simp add: totalWidth_def)
next
  case (Cons g r)
  have g: "seg_x g = p" "0 < seg_width g" and r: "chainFrom (p + seg_width g) r" "positiveWidths r"
    using Cons.prems by simp_all
  have T: "0 \<le> totalWidth r" using r(2) by (rule totalWidth_nonneg)
  note IH = Cons.IH [OF r Cons.prems(3)]
  consider (after) "e \<le> p" | (straddle) "p < e" "e < p + seg_width g" | (before) "p + seg_width g \<le> e"
    by linarith
  then show ?case
  proof cases
    case after
    then have k: "keptAfter s e g = [g\<lparr>seg_x := p - (e - s)\<rparr>]" by (simp add: keptAfter_def g)
    have m: "max (p + seg_width g) e = p + seg_width g" "max p e = p" using after g by simp_all
    show ?thesis using IH g T unfolding m by (simp add: k add_diff_eq algebra_simps)
  next
    case straddle
    then have k: "keptAfter s e g = [g\<lparr>seg_x := e - (e - s), seg_width := p + seg_width g - e\<rparr>]"
      by (simp add: keptAfter_def g)
    have m: "max (p + seg_width g) e = p + seg_width g" "max p e = e" using straddle by simp_all
    show ?thesis using IH g T straddle unfolding m by (simp add: k algebra_simps)
  next
    case before
    then have k: "keptAfter s e g = []" using g by (simp add: keptAfter_def)
    have m: "max (p + seg_width g) e = e" "max p e = e" using before g by simp_all
    show ?thesis using IH g T unfolding m by (simp add: k algebra_simps)
  qed
qed

lemma positiveWidths_Nil [simp]: "positiveWidths []"
  by (simp add: positiveWidths_def)

lemma positiveWidths_concat:
  "(\<And>g. g \<in> set segs \<Longrightarrow> positiveWidths (f g)) \<Longrightarrow> positiveWidths (concat (map f segs))"
  by (induction segs) simp_all

lemma positiveWidths_member: "positiveWidths segs \<Longrightarrow> g \<in> set segs \<Longrightarrow> 0 < seg_width g"
  by (simp add: positiveWidths_def list_all_iff)

lemma positiveWidths_ripple:
  assumes "positiveWidths segs"
  shows "positiveWidths (rippleDelete segs s e)"
proof -
  have "positiveWidths (keptBefore s g)" if "g \<in> set segs" for g
    using positiveWidths_member [OF assms that] by (simp add: keptBefore_def)
  moreover have "positiveWidths (keptAfter s e g)" if "g \<in> set segs" for g
    using positiveWidths_member [OF assms that] by (simp add: keptAfter_def)
  ultimately show ?thesis
    by (simp add: rippleDelete_concat positiveWidths_concat)
qed

lemma contiguous_ripple:
  assumes "contiguous segs" "positiveWidths segs" "s < e"
  shows "contiguous (rippleDelete segs s e)"
proof (cases segs)
  case Nil
  then show ?thesis by (simp add: rippleDelete_concat)
next
  case (Cons g0 r0)
  define p where "p = seg_x g0"
  define q where "q = p + totalWidth segs"
  define a where "a = concat (map (keptBefore s) segs)"
  define b where "b = concat (map (keptAfter s e) segs)"
  have R: "rippleDelete segs s e = a @ b" by (simp add: rippleDelete_concat a_def b_def)
  have ch: "chainFrom p segs" using assms(1) Cons by (simp add: contiguous_chainFrom p_def)
  have a: "chainFrom p a" "totalWidth a = max 0 (min s q - p)"
    using pass1_chain [OF ch assms(2), of s] by (simp_all add: q_def a_def)
  have b: "chainFrom (max p e - (e - s)) b" "totalWidth b = max 0 (q - max p e)"
    using pass2_chain [OF ch assms(2,3)] by (simp_all add: q_def b_def)
  have pos: "positiveWidths a" "positiveWidths b"
    using positiveWidths_ripple [OF assms(2), of s e] unfolding R by simp_all
  consider (noa) "a = []" | (nob) "b = []" | (both) "a \<noteq> []" "b \<noteq> []" by blast
  then show ?thesis
  proof cases
    case noa
    then show ?thesis unfolding R using b(1) by (simp add: chainFrom_contiguous)
  next
    case nob
    then show ?thesis unfolding R using a(1) by (simp add: chainFrom_contiguous)
  next
    case both
    then have "0 < totalWidth a" "0 < totalWidth b"
      using pos by (simp_all add: totalWidth_pos)
    then have "p < s" "e < q" using a(2) b(2) by (simp_all add: max_def min_def split: if_splits)
    then have "p + totalWidth a = max p e - (e - s)"
      using a(2) assms(3) by (simp add: max_def min_def)
    then have "chainFrom p (a @ b)" using a(1) b(1) by (simp add: chainFrom_append)
    then show ?thesis unfolding R by (rule chainFrom_contiguous)
  qed
qed

lemma totalWidth_concat:
  "totalWidth (concat (map f segs)) = sum_list (map (\<lambda>g. totalWidth (f g)) segs)"
  by (induction segs) simp_all

lemma totalWidth_ripple:
  assumes "positiveWidths segs" "s < e"
  shows "totalWidth (rippleDelete segs s e)
           = totalWidth segs - coveredLength (\<lambda>c. True) segs s e"
  using assms(1)
proof (induction segs)
  case Nil
  then show ?case by (simp add: rippleDelete_concat coveredLength_def)
next
  case (Cons g r)
  then have w: "0 < seg_width g" and r: "positiveWidths r" by simp_all
  have "totalWidth (keptBefore s g) + totalWidth (keptAfter s e g)
          = seg_width g - overlapLen s e g"
    using w assms(2) by (simp add: keptBefore_def keptAfter_def overlapLen_def max_def min_def)
  then show ?case using Cons.IH [OF r]
    by (simp add: rippleDelete_concat coveredLength_def)
qed

lemma covered_inside:
  assumes "contiguous segs" "positiveWidths segs" "segs \<noteq> []"
    and "seg_x (hd segs) \<le> s" "s < e" "e \<le> seg_x (last segs) + seg_width (last segs)"
  shows "coveredLength (\<lambda>c. True) segs s e = e - s"
proof -
  have ch: "chainFrom (seg_x (hd segs)) segs"
    using assms(1,3) by (cases segs) (simp_all add: contiguous_chainFrom del: chainFrom.simps)
  have "e \<le> seg_x (hd segs) + totalWidth segs"
    using chainFrom_last [OF ch assms(3)] assms(6) by simp
  then show ?thesis
    using overlap_chain [OF ch assms(2), of s e] assms(4,5)
    by (simp add: coveredLength_def max_def min_def)
qed

lemma colors_ripple:
  assumes "positiveWidths segs"
  shows "map seg_color (rippleDelete segs s e)
           = map seg_color (filter (\<lambda>g. seg_x g < s) segs)
             @ map seg_color (filter (\<lambda>g. e < seg_x g + seg_width g) segs)"
proof -
  have "map seg_color (concat (map (keptBefore s) segs))
          = map seg_color (filter (\<lambda>g. seg_x g < s) segs)"
    using assms
  proof (induction segs)
    case Nil
    then show ?case by simp
  next
    case (Cons g r)
    then have w: "0 < seg_width g" and r: "positiveWidths r" by simp_all
    have "map seg_color (keptBefore s g) = (if seg_x g < s then [seg_color g] else [])"
      using w by (simp add: keptBefore_def)
    then show ?case using Cons.IH [OF r] by simp
  qed
  moreover have "map seg_color (concat (map (keptAfter s e) segs))
          = map seg_color (filter (\<lambda>g. e < seg_x g + seg_width g) segs)"
    using assms
  proof (induction segs)
    case Nil
    then show ?case by simp
  next
    case (Cons g r)
    then have w: "0 < seg_width g" and r: "positiveWidths r" by simp_all
    have "map seg_color (keptAfter s e g)
            = (if e < seg_x g + seg_width g then [seg_color g] else [])"
      using w by (simp add: keptAfter_def)
    then show ?case using Cons.IH [OF r] by simp
  qed
  ultimately show ?thesis by (simp add: rippleDelete_concat)
qed

lemma members_ripple:
  assumes "g \<in> set segs"
  shows "seg_x g + seg_width g \<le> s \<Longrightarrow> g \<in> set (rippleDelete segs s e)"
    and "seg_x g < s \<Longrightarrow> s < seg_x g + seg_width g
         \<Longrightarrow> g\<lparr>seg_width := s - seg_x g\<rparr> \<in> set (rippleDelete segs s e)"
    and "e \<le> seg_x g \<Longrightarrow> g\<lparr>seg_x := seg_x g - (e - s)\<rparr> \<in> set (rippleDelete segs s e)"
    and "seg_x g < e \<Longrightarrow> e < seg_x g + seg_width g
         \<Longrightarrow> g\<lparr>seg_x := s, seg_width := seg_x g + seg_width g - e\<rparr>
               \<in> set (rippleDelete segs s e)"
proof -
  have in1: "h \<in> set (keptBefore s g) \<Longrightarrow> h \<in> set (rippleDelete segs s e)" for h
    using assms by (auto simp: rippleDelete_concat)
  have in2: "h \<in> set (keptAfter s e g) \<Longrightarrow> h \<in> set (rippleDelete segs s e)" for h
    using assms by (auto simp: rippleDelete_concat)
  show "seg_x g + seg_width g \<le> s \<Longrightarrow> g \<in> set (rippleDelete segs s e)"
    by (rule in1) (simp add: keptBefore_def)
  show "seg_x g < s \<Longrightarrow> s < seg_x g + seg_width g
         \<Longrightarrow> g\<lparr>seg_width := s - seg_x g\<rparr> \<in> set (rippleDelete segs s e)"
    by (rule in1) (simp add: keptBefore_def)
  show "e \<le> seg_x g \<Longrightarrow> g\<lparr>seg_x := seg_x g - (e - s)\<rparr> \<in> set (rippleDelete segs s e)"
    by (rule in2) (simp add: keptAfter_def)
  show "seg_x g < e \<Longrightarrow> e < seg_x g + seg_width g
         \<Longrightarrow> g\<lparr>seg_x := s, seg_width := seg_x g + seg_width g - e\<rparr>
               \<in> set (rippleDelete segs s e)"
    by (rule in2) (simp add: keptAfter_def)
qed

lemma performExtract_ripples:
  assumes "markIn st = Some s" "markOut st = Some e" "s < e"
    and "succeeded (performExtract now dnow st)"
    and "Win \<notin> set (fst (performExtract now dnow st))"
  shows "sourceSegments (snd (performExtract now dnow st))
           = rippleDelete (sourceSegments st) s e"
  using assms(4,5)
  by (auto simp: performExtract_marked [OF assms(1-3)] Let_def succeeded_def
      split: if_splits)

text \<open>
  Claim C1, as the code has it. After a successful extraction that does not win the
  run, on a contiguous tape of positive-width segments and with \<open>end > start\<close>, the
  new tape is the ripple delete of the old one: every segment that ends at or before
  \<open>start\<close> is kept unchanged; a segment straddling \<open>start\<close> is cut to end at \<open>start\<close>;
  every segment that begins at or after \<open>end\<close> is moved left by \<open>end - start\<close>; a segment
  straddling \<open>end\<close> is cut to begin at \<open>start\<close>. The new tape is contiguous, its
  segments have positive width, and its colours are those of the old segments with a
  part before \<open>start\<close>, in tape order, followed by those of the old segments with a part
  after \<open>end\<close>, in tape order. Its total length is the old total length minus the length
  of the part of \<open>[start, end)\<close> that lies on the tape; that is the extracted duration
  \<open>end - start\<close> when the tape begins at or before \<open>start\<close> and ends at or after \<open>end\<close>.
\<close>

theorem ripple_delete_contract:
  assumes "markIn st = Some s" "markOut st = Some e" "s < e"
    and "succeeded (performExtract now dnow st)"
    and "Win \<notin> set (fst (performExtract now dnow st))"
    and "contiguous (sourceSegments st)" "positiveWidths (sourceSegments st)"
  shows "(let old = sourceSegments st;
              new = sourceSegments (snd (performExtract now dnow st))
          in new = rippleDelete old s e
           \<and> (\<forall>g \<in> set old. seg_x g + seg_width g \<le> s \<longrightarrow> g \<in> set new)
           \<and> (\<forall>g \<in> set old. seg_x g < s \<and> s < seg_x g + seg_width g
                  \<longrightarrow> g\<lparr>seg_width := s - seg_x g\<rparr> \<in> set new)
           \<and> (\<forall>g \<in> set old. e \<le> seg_x g \<longrightarrow> g\<lparr>seg_x := seg_x g - (e - s)\<rparr> \<in> set new)
           \<and> (\<forall>g \<in> set old. seg_x g < e \<and> e < seg_x g + seg_width g
                  \<longrightarrow> g\<lparr>seg_x := s, seg_width := seg_x g + seg_width g - e\<rparr> \<in> set new)
           \<and> contiguous new
           \<and> positiveWidths new
           \<and> totalWidth new = totalWidth old - coveredLength (\<lambda>c. True) old s e
           \<and> (old \<noteq> [] \<and> seg_x (hd old) \<le> s
                \<and> e \<le> seg_x (last old) + seg_width (last old)
                \<longrightarrow> totalWidth new = totalWidth old - (e - s))
           \<and> map seg_color new
               = map seg_color (filter (\<lambda>g. seg_x g < s) old)
                 @ map seg_color (filter (\<lambda>g. e < seg_x g + seg_width g) old))"
proof -
  define old where "old = sourceSegments st"
  define new where "new = sourceSegments (snd (performExtract now dnow st))"
  have new: "new = rippleDelete old s e"
    unfolding new_def old_def by (rule performExtract_ripples [OF assms(1-5)])
  have c: "contiguous old" and pw: "positiveWidths old" using assms(6,7) by (simp_all add: old_def)
  have m1: "\<forall>g \<in> set old. seg_x g + seg_width g \<le> s \<longrightarrow> g \<in> set new"
    unfolding new using members_ripple(1) by blast
  have m2: "\<forall>g \<in> set old. seg_x g < s \<and> s < seg_x g + seg_width g
                  \<longrightarrow> g\<lparr>seg_width := s - seg_x g\<rparr> \<in> set new"
    unfolding new using members_ripple(2) by blast
  have m3: "\<forall>g \<in> set old. e \<le> seg_x g \<longrightarrow> g\<lparr>seg_x := seg_x g - (e - s)\<rparr> \<in> set new"
    unfolding new using members_ripple(3) by blast
  have m4: "\<forall>g \<in> set old. seg_x g < e \<and> e < seg_x g + seg_width g
                  \<longrightarrow> g\<lparr>seg_x := s, seg_width := seg_x g + seg_width g - e\<rparr> \<in> set new"
    unfolding new using members_ripple(4) by blast
  have cn: "contiguous new" unfolding new by (rule contiguous_ripple [OF c pw assms(3)])
  have pn: "positiveWidths new" unfolding new by (rule positiveWidths_ripple [OF pw])
  have tw: "totalWidth new = totalWidth old - coveredLength (\<lambda>c. True) old s e"
    unfolding new by (rule totalWidth_ripple [OF pw assms(3)])
  have ti: "old \<noteq> [] \<and> seg_x (hd old) \<le> s \<and> e \<le> seg_x (last old) + seg_width (last old)
                \<longrightarrow> totalWidth new = totalWidth old - (e - s)"
    using tw covered_inside [OF c pw _ _ assms(3)] by auto
  have co: "map seg_color new
               = map seg_color (filter (\<lambda>g. seg_x g < s) old)
                 @ map seg_color (filter (\<lambda>g. e < seg_x g + seg_width g) old)"
    unfolding new by (rule colors_ripple [OF pw])
  from new m1 m2 m3 m4 cn pn tw ti co show ?thesis
    unfolding old_def [symmetric] new_def [symmetric] Let_def by blast
qed

lemma ripple_example:
  "performExtract 0 0
     (engineWith [seg 0 0 300 RED, seg 1 300 120 BLUE, seg 2 420 180 GREEN]
        (Some 306) (Some 414) STANDARD BLUE)
   = ([ScoreUpdate 108],
      (engineWith [seg 0 0 300 RED, seg 1 300 6 BLUE, seg 1 306 6 BLUE, seg 2 312 180 GREEN]
        None None STANDARD BLUE)
        \<lparr>conveyorOffset := 94, characterMood := Happy, characterMoodTimer := 60,
         particles := replicate 20 \<lparr>p_x = 400, p_y = 480, p_life = 1, p_color = BLUE, p_type = Heart\<rparr>,
         sequenceClips := [\<lparr>clip_id = ClipId 0, clip_width = 108, clip_color = BLUE\<rparr>]\<rparr>)"
  by (simp add: performExtract_marked [of _ 306 414] engineWith_def newGameEngine_def seg_def
        affectedSegments_def standardSuccess_def correctColorLength_def WIN_PIXELS_def
        SEQUENCE_TRACK_Y_def rippleDelete_def frameGrid_def math_round_def FRAME_PIXELS_def
        color_defs Let_def)

theorem ripple_delete_contract_witness:
  "contiguous (sourceSegments (snd (performExtract 0 0
      (engineWith [seg 0 0 300 RED, seg 1 300 120 BLUE, seg 2 420 180 GREEN]
         (Some 306) (Some 414) STANDARD BLUE))))
   \<and> totalWidth (sourceSegments (snd (performExtract 0 0
      (engineWith [seg 0 0 300 RED, seg 1 300 120 BLUE, seg 2 420 180 GREEN]
         (Some 306) (Some 414) STANDARD BLUE)))) = 600 - (414 - 306)"
  using ripple_delete_contract
          [of "engineWith [seg 0 0 300 RED, seg 1 300 120 BLUE, seg 2 420 180 GREEN]
                 (Some 306) (Some 414) STANDARD BLUE" 306 414 0 0]
  unfolding ripple_example
  by (simp add: succeeded_def engineWith_def newGameEngine_def seg_def positiveWidths_def
        totalWidth_def rippleDelete_def Let_def)

text \<open>
  Claim C1 as stated gives the remaining length as the original length minus the
  extracted duration for every marked range. On the one-segment tape
  \<open>{x: 0, width: 300}\<close> in \<open>CAT_MODE\<close>, the range \<open>[0, 360)\<close> is extracted with
  success and the tape that remains is empty: its length is 0, not \<open>300 - 360\<close>.
\<close>

theorem ripple_past_tape_end_counterexample:
  "contiguous [seg 0 0 300 RED]
   \<and> succeeded (performExtract 0 0 (engineWith [seg 0 0 300 RED] (Some 0) (Some 360) CAT_MODE RED))
   \<and> sourceSegments (snd (performExtract 0 0
        (engineWith [seg 0 0 300 RED] (Some 0) (Some 360) CAT_MODE RED))) = []
   \<and> totalWidth [] \<noteq> totalWidth [seg 0 0 300 RED] - (360 - 0)"
  by (simp add: performExtract_marked [of _ 0 360] engineWith_def newGameEngine_def seg_def
        affectedSegments_def catSuccess_def FRAME_PIXELS_def WIN_PIXELS_def succeeded_def
        rippleDelete_def totalWidth_def color_defs Let_def)

section \<open>Tape generation\<close>

lemma pickColor_result:
  "pickColor i segs rs = Some (col, rs') \<Longrightarrow>
   set rs' \<subseteq> set rs \<and> col \<in> set AVAILABLE_COLORS
   \<and> (i > 0 \<longrightarrow> col \<noteq> seg_color (segs ! (i - 1)))"
proof (induction rs)
  case Nil
  then show ?case by simp
next
  case (Cons r rs)
  define k where "k = \<lfloor>r * real (length AVAILABLE_COLORS)\<rfloor>"
  from Cons.prems have inr: "0 \<le> k \<and> nat k < length AVAILABLE_COLORS"
    by (simp add: k_def [symmetric] Let_def split: if_splits)
  show ?case
  proof (cases "i > 0 \<and> AVAILABLE_COLORS ! nat k = seg_color (segs ! (i - 1))")
    case True
    then have "pickColor i segs rs = Some (col, rs')"
      using Cons.prems inr by (simp add: k_def [symmetric] Let_def)
    from Cons.IH [OF this] show ?thesis by auto
  next
    case False
    then have "col = AVAILABLE_COLORS ! nat k" "rs' = rs"
      using Cons.prems inr by (auto simp: k_def [symmetric] Let_def split: if_splits)
    then show ?thesis using False inr by auto
  qed
qed

lemma tapeInv_step:
  assumes inv: "tapeInv i cx segs"
    and col: "col \<in> set AVAILABLE_COLORS" "i > 0 \<longrightarrow> col \<noteq> seg_color (segs ! (i - 1))"
    and w: "widthOK \<lparr>seg_id = SegId i, seg_x = cx, seg_width = w, seg_color = col\<rparr>"
  shows "tapeInv (i + 1) (cx + w)
           (segs @ [\<lparr>seg_id = SegId i, seg_x = cx, seg_width = w, seg_color = col\<rparr>])"
proof -
  let ?n = "\<lparr>seg_id = SegId i, seg_x = cx, seg_width = w, seg_color = col\<rparr>"
  from inv have len: "length segs = i" by (simp add: tapeInv_def)
  have nth_old: "(segs @ [?n]) ! j = segs ! j" if "j < i" for j
    using that len by (simp add: nth_append)
  have nth_new: "(segs @ [?n]) ! i = ?n" using len by (simp add: nth_append)
  have adj: "seg_x ((segs @ [?n]) ! j) + seg_width ((segs @ [?n]) ! j) = seg_x ((segs @ [?n]) ! (j + 1))
             \<and> seg_color ((segs @ [?n]) ! j) \<noteq> seg_color ((segs @ [?n]) ! (j + 1))"
    if "j + 1 < i + 1" for j
  proof (cases "j + 1 < i")
    case True
    then show ?thesis using inv nth_old [of j] nth_old [of "j + 1"] by (simp add: tapeInv_def)
  next
    case False
    then have j: "j = i - 1" "i > 0" "j + 1 = i" using that by simp_all
    have "seg_x (segs ! j) + seg_width (segs ! j) = cx" using inv j by (simp add: tapeInv_def)
    moreover have "seg_color (segs ! j) \<noteq> col" using col(2) j by auto
    ultimately show ?thesis using nth_old [of j] nth_new j by simp
  qed
  have first: "seg_x ((segs @ [?n]) ! 0) = 0"
  proof (cases "i = 0")
    case True
    then show ?thesis using inv nth_new by (simp add: tapeInv_def)
  next
    case False
    then show ?thesis using inv nth_old [of 0] by (simp add: tapeInv_def)
  qed
  have all: "\<forall>g \<in> set (segs @ [?n]). widthOK g \<and> seg_color g \<in> set AVAILABLE_COLORS"
    using inv w col(1) by (auto simp: tapeInv_def)
  show ?thesis
    unfolding tapeInv_def using len first adj all nth_new by simp
qed

lemma widthOK_draw:
  assumes "0 \<le> r" "r < 1"
  shows "widthOK \<lparr>seg_id = a, seg_x = b,
            seg_width = of_int (math_round ((r * (SEGMENT_MAX_WIDTH - SEGMENT_MIN_WIDTH)
                            + SEGMENT_MIN_WIDTH) / FRAME_PIXELS)) * FRAME_PIXELS,
            seg_color = c\<rparr>"
  unfolding widthOK_def
  by (rule exI [of _ "r * (SEGMENT_MAX_WIDTH - SEGMENT_MIN_WIDTH) + SEGMENT_MIN_WIDTH"])
     (use assms in \<open>simp add: SEGMENT_MAX_WIDTH_def SEGMENT_MIN_WIDTH_def\<close>)

lemma genLoop_inv:
  "genLoop i cx segs rs = Some (tape, rest) \<Longrightarrow> \<forall>r \<in> set rs. 0 \<le> r \<and> r < 1
   \<Longrightarrow> tapeInv i cx segs \<Longrightarrow> i \<le> 200
   \<Longrightarrow> \<exists>cx'. tapeInv 200 cx' tape"
proof (induction i cx segs rs rule: genLoop.induct)
  case (1 i cx segs rs)
  show ?case
  proof (cases "i < 200")
    case False
    then have "tape = segs" "i = 200" using "1.prems" by (simp_all add: genLoop.simps)
    then show ?thesis using "1.prems"(3) by auto
  next
    case True
    then obtain r rs1 where rs: "rs = r # rs1"
      using "1.prems"(1) by (cases rs) (simp_all add: genLoop.simps)
    define w where "w = real_of_int (math_round ((r * (SEGMENT_MAX_WIDTH - SEGMENT_MIN_WIDTH)
                            + SEGMENT_MIN_WIDTH) / FRAME_PIXELS)) * FRAME_PIXELS"
    obtain col rs2 where pc: "pickColor i segs rs1 = Some (col, rs2)"
      using "1.prems"(1) True rs
      by (cases "pickColor i segs rs1") (auto simp: genLoop.simps [of i] Let_def)
    let ?n = "\<lparr>seg_id = SegId i, seg_x = cx, seg_width = w, seg_color = col\<rparr>"
    have run: "genLoop (i + 1) (cx + w) (segs @ [?n]) rs2 = Some (tape, rest)"
      using "1.prems"(1) True rs pc by (simp add: genLoop.simps [of i] Let_def w_def)
    from pickColor_result [OF pc]
    have sub: "set rs2 \<subseteq> set rs1" and col: "col \<in> set AVAILABLE_COLORS"
      "i > 0 \<longrightarrow> col \<noteq> seg_color (segs ! (i - 1))" by simp_all
    have r: "0 \<le> r" "r < 1" using "1.prems"(2) rs by simp_all
    have inv': "tapeInv (i + 1) (cx + w) (segs @ [?n])"
      by (rule tapeInv_step [OF "1.prems"(3) col]) (simp add: w_def widthOK_draw [OF r])
    have draws: "\<forall>r \<in> set rs2. 0 \<le> r \<and> r < 1" using "1.prems"(2) rs sub by auto
    show ?thesis
      using "1.IH" [OF True rs refl w_def pc refl run draws inv'] True by simp
  qed
qed

lemma contiguous_nth:
  "contiguous xs \<longleftrightarrow>
     (\<forall>j. j + 1 < length xs \<longrightarrow> seg_x (xs ! j) + seg_width (xs ! j) = seg_x (xs ! (j + 1)))"
proof (induction xs rule: contiguous.induct)
  case 1
  then show ?case by simp
next
  case (2 s)
  then show ?case by simp
next
  case (3 s t r)
  have "(\<forall>j. j + 1 < length (s # t # r) \<longrightarrow>
           seg_x ((s # t # r) ! j) + seg_width ((s # t # r) ! j) = seg_x ((s # t # r) ! (j + 1)))
        \<longleftrightarrow> seg_x s + seg_width s = seg_x t
            \<and> (\<forall>j. j + 1 < length (t # r) \<longrightarrow>
                 seg_x ((t # r) ! j) + seg_width ((t # r) ! j) = seg_x ((t # r) ! (j + 1)))"
    (is "?L \<longleftrightarrow> ?H \<and> ?R")
  proof
    assume L: ?L
    have ?H using L [rule_format, of 0] by simp
    moreover have ?R
    proof (intro allI impI)
      fix j assume "j + 1 < length (t # r)"
      then show "seg_x ((t # r) ! j) + seg_width ((t # r) ! j) = seg_x ((t # r) ! (j + 1))"
        using L [rule_format, of "Suc j"] by simp
    qed
    ultimately show "?H \<and> ?R" ..
  next
    assume HR: "?H \<and> ?R"
    show ?L
    proof (intro allI impI)
      fix j assume j: "j + 1 < length (s # t # r)"
      show "seg_x ((s # t # r) ! j) + seg_width ((s # t # r) ! j) = seg_x ((s # t # r) ! (j + 1))"
      proof (cases j)
        case 0
        then show ?thesis using HR by simp
      next
        case (Suc k)
        then show ?thesis using HR [THEN conjunct2, rule_format, of k] j by simp
      qed
    qed
  qed
  then show ?case using 3 by simp
qed

lemma widthOK_positive: "widthOK g \<Longrightarrow> 0 < seg_width g"
  by (auto simp: widthOK_def math_round_def FRAME_PIXELS_def SEGMENT_MIN_WIDTH_def
      less_floor_iff)

lemma pickColor_alt:
  assumes "i > 0 \<longrightarrow> seg_color (segs ! (i - 1)) = (if even i then YELLOW else RED)"
  shows "pickColor i segs ((if even i then 0 else 1 / 2) # rest)
           = Some (if even i then RED else YELLOW, rest)"
  using assms by (cases "even i") (auto simp: AVAILABLE_COLORS_def color_defs Let_def)

lemma genLoop_alt:
  "length segs = i \<Longrightarrow> i \<le> 200
   \<Longrightarrow> (i > 0 \<longrightarrow> seg_color (segs ! (i - 1)) = (if even i then YELLOW else RED))
   \<Longrightarrow> \<exists>tape. genLoop i cx segs (altDraws i) = Some (tape, [])"
proof (induction "200 - i" arbitrary: i cx segs)
  case 0
  then have "i = 200" by simp
  then show ?case by (simp add: genLoop.simps altDraws_def)
next
  case (Suc n)
  then have i: "i < 200" and n: "n = 200 - Suc i" by simp_all
  define w where "w = real_of_int (math_round (((1 / 2) * (SEGMENT_MAX_WIDTH - SEGMENT_MIN_WIDTH)
                            + SEGMENT_MIN_WIDTH) / FRAME_PIXELS)) * FRAME_PIXELS"
  define col where "col = (if even i then RED else YELLOW)"
  let ?n = "\<lparr>seg_id = SegId i, seg_x = cx, seg_width = w, seg_color = col\<rparr>"
  have d: "altDraws i = (1 / 2) # (if even i then 0 else 1 / 2) # altDraws (Suc i)"
    using i by (simp add: altDraws_def upt_conv_Cons)
  have pc: "pickColor i segs ((if even i then 0 else 1 / 2) # altDraws (Suc i))
              = Some (col, altDraws (Suc i))"
    unfolding col_def by (rule pickColor_alt [OF Suc.prems(3)])
  have step: "genLoop i cx segs (altDraws i)
                = genLoop (Suc i) (cx + w) (segs @ [?n]) (altDraws (Suc i))"
    unfolding d by (subst genLoop.simps) (simp add: i pc Let_def w_def del: pickColor.simps split del: if_split)
  have last: "seg_color ((segs @ [?n]) ! (Suc i - 1)) = (if even (Suc i) then YELLOW else RED)"
    using Suc.prems(1) by (simp add: nth_append col_def)
  have "\<exists>tape. genLoop (Suc i) (cx + w) (segs @ [?n]) (altDraws (Suc i)) = Some (tape, [])"
    by (rule Suc.hyps(1) [OF n]) (use Suc.prems(1) i last in simp_all)
  then show ?case by (simp add: step)
qed

lemma positiveWidths_all: "positiveWidths segs = (\<forall>g \<in> set segs. 0 < seg_width g)"
  by (simp add: positiveWidths_def list_all_iff)

text \<open>
  Claim C8. Whatever the draws of \<open>Math.random()\<close> (each in \<open>[0, 1)\<close>), a tape that
  \<open>generateSourceTape\<close> produces has exactly 200 segments, the first at position 0,
  each beginning where its predecessor ends; every width is \<open>FRAME_PIXELS\<close> times the
  rounding of a number in \<open>[SEGMENT_MIN_WIDTH, SEGMENT_MAX_WIDTH]\<close> divided by
  \<open>FRAME_PIXELS\<close>, and is positive; no two neighbours have the same colour. The colour
  loop redraws while the colour repeats, so a tape is produced once a differing colour
  is drawn; on the draws \<open>altDraws 0\<close> the generator does return (\<open>genLoop_alt\<close>).
\<close>

theorem generateSourceTape_invariants:
  assumes "generateSourceTape rs = Some (tape, rest)"
    and "\<forall>r \<in> set rs. 0 \<le> r \<and> r < 1"
  shows "length tape = 200
       \<and> seg_x (tape ! 0) = 0
       \<and> (\<forall>i. i + 1 < 200 \<longrightarrow>
              seg_x (tape ! i) + seg_width (tape ! i) = seg_x (tape ! (i + 1))
            \<and> seg_color (tape ! i) \<noteq> seg_color (tape ! (i + 1)))
       \<and> (\<forall>g \<in> set tape.
              (\<exists>raw. SEGMENT_MIN_WIDTH \<le> raw \<and> raw \<le> SEGMENT_MAX_WIDTH
                 \<and> seg_width g = of_int (math_round (raw / FRAME_PIXELS)) * FRAME_PIXELS)
            \<and> 0 < seg_width g
            \<and> seg_color g \<in> set AVAILABLE_COLORS)
       \<and> contiguous tape
       \<and> positiveWidths tape"
proof -
  have "tapeInv 0 0 []" by (simp add: tapeInv_def)
  from genLoop_inv [OF assms(1) [unfolded generateSourceTape_def] assms(2) this]
  obtain cx where inv: "tapeInv 200 cx tape" by auto
  then have len: "length tape = 200" and first: "seg_x (tape ! 0) = 0"
    and adj: "\<forall>i. i + 1 < 200 \<longrightarrow>
              seg_x (tape ! i) + seg_width (tape ! i) = seg_x (tape ! (i + 1))
            \<and> seg_color (tape ! i) \<noteq> seg_color (tape ! (i + 1))"
    and all: "\<forall>g \<in> set tape. widthOK g \<and> seg_color g \<in> set AVAILABLE_COLORS"
    by (simp_all add: tapeInv_def)
  have w: "\<forall>g \<in> set tape.
              (\<exists>raw. SEGMENT_MIN_WIDTH \<le> raw \<and> raw \<le> SEGMENT_MAX_WIDTH
                 \<and> seg_width g = of_int (math_round (raw / FRAME_PIXELS)) * FRAME_PIXELS)
            \<and> 0 < seg_width g
            \<and> seg_color g \<in> set AVAILABLE_COLORS"
    using all widthOK_positive by (auto simp: widthOK_def)
  have c: "contiguous tape" using adj len by (simp add: contiguous_nth)
  have p: "positiveWidths tape" using w by (simp add: positiveWidths_all)
  from len first adj w c p show ?thesis by blast
qed

theorem generateSourceTape_invariants_witness:
  "\<exists>tape. generateSourceTape (altDraws 0) = Some (tape, [])
         \<and> length tape = 200 \<and> seg_x (tape ! 0) = 0 \<and> contiguous tape
         \<and> seg_color (tape ! 0) \<noteq> seg_color (tape ! 1)"
proof -
  obtain tape where t: "generateSourceTape (altDraws 0) = Some (tape, [])"
    using genLoop_alt [of "[]" 0 0] by (auto simp: generateSourceTape_def)
  have "\<forall>r \<in> set (altDraws 0). 0 \<le> r \<and> r < 1" by (auto simp: altDraws_def)
  from generateSourceTape_invariants [OF t this] t show ?thesis by auto
qed

section \<open>Input state machine\<close>

lemma releaseShuttle_held:
  assumes "isHoldingK st" "inputTimestamps st key = Some t0" "inputStartOffsets st key = Some off0"
  shows "releaseShuttle now key d st =
     (if now - t0 < 200 then
        ([PenaltyUpdate (penaltyCount st + 1)],
         st\<lparr>currentSpeed := 0,
            conveyorOffset := width st / 2 - (frameGrid (width st / 2 - off0) + d),
            penaltyCount := penaltyCount st + 1,
            characterMood := Worried, characterMoodTimer := 200,
            particles := particles st @ replicate 3
               \<lparr>p_x = width st / 2, p_y = SOURCE_TRACK_Y, p_life = 1, p_color = ''#ef4444'',
                 p_type = Star\<rparr>\<rparr>)
      else ([], snapToFrame (st\<lparr>currentSpeed := 0\<rparr>)))"
  using assms
  by (simp add: releaseShuttle_def registerBadHabit_def setCharacterMood_def
        createParticles_def Let_def)

text \<open>
  Claim C5. When L is released while K is held, and L was pressed before (so that the
  press time \<open>t0\<close> and the offset \<open>off0\<close> at the press are on record), the speed
  becomes zero. Released under 200 ms after the press, the playhead is put exactly one
  \<open>FRAME_PIXELS\<close> forward of the frame-grid position of the offset recorded at the
  press, whatever the live offset is, and the penalty count goes up by one. Released
  200 ms or more after the press, the playhead is snapped to the nearest frame and the
  penalty count stays. J is the same with the step reversed.
\<close>

theorem handleKeyUp_tap_or_hold:
  assumes "key = KEY_L \<and> d = FRAME_PIXELS \<or> key = KEY_J \<and> d = - FRAME_PIXELS"
    and "isHoldingK st"
    and "inputTimestamps st key = Some t0"
    and "inputStartOffsets st key = Some off0"
  shows "currentSpeed (snd (handleKeyUp now key st)) = 0
       \<and> (now - t0 < 200 \<longrightarrow>
            getTapeXAtPlayhead (snd (handleKeyUp now key st))
              = frameGrid (width st / 2 - off0) + d
          \<and> penaltyCount (snd (handleKeyUp now key st)) = penaltyCount st + 1
          \<and> fst (handleKeyUp now key st) = [PenaltyUpdate (penaltyCount st + 1)])
       \<and> (200 \<le> now - t0 \<longrightarrow>
            getTapeXAtPlayhead (snd (handleKeyUp now key st))
              = frameGrid (getTapeXAtPlayhead st)
          \<and> penaltyCount (snd (handleKeyUp now key st)) = penaltyCount st
          \<and> fst (handleKeyUp now key st) = [])"
proof -
  from assms(1) have "handleKeyUp now key st
      = releaseShuttle now key d (if key = KEY_L then st\<lparr>isHoldingL := False\<rparr>
                                  else st\<lparr>isHoldingJ := False\<rparr>)"
    by (auto simp: handleKeyUp_def key_defs)
  also have "\<dots> = (if now - t0 < 200 then
        ([PenaltyUpdate (penaltyCount st + 1)],
         (if key = KEY_L then st\<lparr>isHoldingL := False\<rparr> else st\<lparr>isHoldingJ := False\<rparr>)
           \<lparr>currentSpeed := 0,
            conveyorOffset := width st / 2 - (frameGrid (width st / 2 - off0) + d),
            penaltyCount := penaltyCount st + 1,
            characterMood := Worried, characterMoodTimer := 200,
            particles := particles st @ replicate 3
               \<lparr>p_x = width st / 2, p_y = SOURCE_TRACK_Y, p_life = 1, p_color = ''#ef4444'',
                 p_type = Star\<rparr>\<rparr>)
      else ([], snapToFrame ((if key = KEY_L then st\<lparr>isHoldingL := False\<rparr>
                              else st\<lparr>isHoldingJ := False\<rparr>)\<lparr>currentSpeed := 0\<rparr>)))"
    using assms(2-4) by (subst releaseShuttle_held [where ?t0.0 = t0 and ?off0.0 = off0]) auto
  finally show ?thesis
    by (auto simp: getTapeXAtPlayhead_def snapToFrame_def Let_def)
qed

theorem handleKeyUp_tap_or_hold_witness:
  "getTapeXAtPlayhead (snd (handleKeyUp 1100 KEY_L joggingEngine)) = 402
   \<and> penaltyCount (snd (handleKeyUp 1100 KEY_L joggingEngine)) = 1
   \<and> getTapeXAtPlayhead (snd (handleKeyUp 1300 KEY_L joggingEngine)) = 390
   \<and> penaltyCount (snd (handleKeyUp 1300 KEY_L joggingEngine)) = 0"
  using handleKeyUp_tap_or_hold [of KEY_L FRAME_PIXELS joggingEngine 1000 3 1100]
        handleKeyUp_tap_or_hold [of KEY_L FRAME_PIXELS joggingEngine 1000 3 1300]
  by (simp add: joggingEngine_def newGameEngine_def frameGrid_def math_round_def
        FRAME_PIXELS_def getTapeXAtPlayhead_def)

text \<open>
  Claim C4. The claim is that after any sequence of mark-in and mark-out key presses
  \<open>markOut\<close> is null or exceeds \<open>markIn\<close>. The mark-out handler refuses a position that
  does not exceed \<open>markIn\<close>, but the mark-in handler clears \<open>markOut\<close> only when it is
  strictly below the new \<open>markIn\<close>. On a new engine (playhead at tape position 400,
  grid position 402), mark-out followed by mark-in leaves both marks at 402.
\<close>

theorem markIn_on_markOut_keeps_both:
  "markIn (snd (handleKeyDown 0 0 KEY_I (snd (handleKeyDown 0 0 KEY_O (newGameEngine 800 600))))) = Some 402
   \<and> markOut (snd (handleKeyDown 0 0 KEY_I (snd (handleKeyDown 0 0 KEY_O (newGameEngine 800 600))))) = Some 402"
  by (simp add: handleKeyDown_def key_defs newGameEngine_def createParticles_def
        getTapeXAtPlayhead_def frameGrid_def math_round_def FRAME_PIXELS_def Let_def)

end
